(* ===== verification/Prelude.thy ===== *)
theory Prelude
  imports Main "HOL-Library.Word" "HOL-Library.Multiset" "HOL-Library.AList"
    "HOL-Library.Signed_Division"
begin

text \<open>
  What the components share: the rendering of numbers by \<^verbatim>\<open>fmt.Sprintf("%d")\<close>, Go's maps as
  association lists with the interface their clients rely on, the combinator that makes the
  calls of a concurrent (or sequential) map in a given order, 64-bit signed arithmetic, and
  the interfaces of a state machine with an invariant and of one whose runs come to an end.
\<close>

named_theorems go_defs \<open>definitions that component proofs unfold together\<close>
named_theorems perm_simps \<open>facts about call orders that are permutations\<close>

section \<open>Decimal rendering\<close>

definition digit :: "nat \<Rightarrow> char" where
  "digit d = char_of (48 + d)"

text \<open>\<^verbatim>\<open>%d\<close> of a non-negative integer.\<close>

fun dec :: "nat \<Rightarrow> string" where
  "dec n = (if n < 10 then [digit n] else dec (n div 10) @ [digit (n mod 10)])"

declare dec.simps [simp del]

definition digit_val :: "char \<Rightarrow> nat" where
  "digit_val c = of_char c - 48"

definition dec_val :: "string \<Rightarrow> nat" where
  "dec_val s = foldl (\<lambda>a c. 10 * a + digit_val c) 0 s"

lemma digit_val_digit [simp]: "d < 10 \<Longrightarrow> digit_val (digit d) = d"
  by (simp add: digit_val_def digit_def)

lemma dec_val_dec [simp]: "dec_val (dec n) = n"
proof (induction n rule: dec.induct)
  case (1 n)
  show ?case
  proof (cases "n < 10")
    case True
    then show ?thesis by (simp add: dec.simps [of n] dec_val_def)
  next
    case False
    with "1.IH" have "dec_val (dec (n div 10)) = n div 10" by simp
    with False show ?thesis by (simp add: dec.simps [of n] dec_val_def)
  qed
qed

lemma dec_inject [simp]: "dec m = dec n \<longleftrightarrow> m = n"
  by (metis dec_val_dec)

lemma digit_neq_dash: "d < 10 \<Longrightarrow> digit d \<noteq> CHR ''-''"
proof
  assume "d < 10" and "digit d = CHR ''-''"
  then have "of_char (char_of (48 + d) :: char) = (of_char (CHR ''-'') :: nat)"
    by (simp add: digit_def)
  with \<open>d < 10\<close> show False by simp
qed

lemma dash_notin_dec [simp]: "CHR ''-'' \<notin> set (dec n)"
proof (induction n rule: dec.induct)
  case (1 n)
  have "digit (n mod 10) \<noteq> CHR ''-''" by (rule digit_neq_dash) simp
  with 1 digit_neq_dash [of n] show ?case
    by (cases "n < 10") (auto simp: dec.simps [of n])
qed

lemma append_sep_inject:
  assumes "xs @ c # ys = xs' @ c # ys'" and "c \<notin> set ys" and "c \<notin> set ys'"
  shows "xs = xs' \<and> ys = ys'"
  using assms
  by (auto simp: append_eq_append_conv2 Cons_eq_append_conv append_eq_Cons_conv)

text \<open>A key built as \<^verbatim>\<open>prefix-number\<close> determines both of its parts.\<close>

lemma dash_key_inject [simp]:
  "s @ CHR ''-'' # dec i = t @ CHR ''-'' # dec j \<longleftrightarrow> s = t \<and> i = j"
  using append_sep_inject [of s "CHR ''-''" "dec i" t "dec j"] by auto

section \<open>Go maps\<close>

text \<open>
  A Go map is an association list with distinct keys; \<^const>\<open>AList.update\<close> and
  \<^const>\<open>AList.delete\<close> are \<^verbatim>\<open>m[k] = v\<close> and \<^verbatim>\<open>delete(m, k)\<close>. Nothing depends on the stored
  order: every iteration goes through an order that is an argument of the model.
\<close>

type_synonym ('k, 'v) gomap = "('k \<times> 'v) list"

locale go_map =
  fixes lookup :: "'m \<Rightarrow> 'k \<Rightarrow> 'v option"
    and update :: "'k \<Rightarrow> 'v \<Rightarrow> 'm \<Rightarrow> 'm"
    and delete :: "'k \<Rightarrow> 'm \<Rightarrow> 'm"
    and wf :: "'m \<Rightarrow> bool"
  assumes lookup_update: "wf m \<Longrightarrow> lookup (update k v m) = (lookup m)(k \<mapsto> v)"
    and lookup_delete: "wf m \<Longrightarrow> lookup (delete k m) = (lookup m)(k := None)"
    and wf_update: "wf m \<Longrightarrow> wf (update k v m)"
    and wf_delete: "wf m \<Longrightarrow> wf (delete k m)"
begin

lemma wf_fold_update: "wf m \<Longrightarrow> wf (fold (\<lambda>k. update k (f k)) ks m)"
  by (induction ks arbitrary: m) (auto intro: wf_update)

lemma wf_fold_delete: "wf m \<Longrightarrow> wf (fold delete ks m)"
  by (induction ks arbitrary: m) (auto intro: wf_delete)

lemma lookup_fold_update:
  "wf m \<Longrightarrow> lookup (fold (\<lambda>k. update k (f k)) ks m) k =
     (if k \<in> set ks then Some (f k) else lookup m k)"
  by (induction ks arbitrary: m) (auto simp: wf_update lookup_update)

lemma lookup_fold_delete:
  "wf m \<Longrightarrow> lookup (fold delete ks m) k = (if k \<in> set ks then None else lookup m k)"
  by (induction ks arbitrary: m) (auto simp: wf_delete lookup_delete)

end

abbreviation distinct_keys :: "('k, 'v) gomap \<Rightarrow> bool" where
  "distinct_keys m \<equiv> distinct (map fst m)"

interpretation gm: go_map map_of AList.update AList.delete distinct_keys
  by unfold_locales (auto simp: update_conv' delete_conv' distinct_update distinct_delete)

text \<open>The entries of a map in the iteration order \<open>ord\<close> of its keys.\<close>

definition mapEntries :: "('k list \<Rightarrow> 'k list) \<Rightarrow> ('k, 'v) gomap \<Rightarrow> ('k \<times> 'v) list" where
  "mapEntries ord m =
     List.map_filter (\<lambda>k. map_option (Pair k) (map_of m k)) (ord (map fst m))"

definition mapValues :: "('k list \<Rightarrow> 'k list) \<Rightarrow> ('k, 'v) gomap \<Rightarrow> 'v list" where
  "mapValues ord m = map snd (mapEntries ord m)"

definition perm_list :: "('a list \<Rightarrow> 'a list) \<Rightarrow> bool" where
  "perm_list ord \<longleftrightarrow> (\<forall>xs. mset (ord xs) = mset xs)"

lemma perm_list_id [simp]: "perm_list (\<lambda>xs. xs)"
  by (simp add: perm_list_def)

lemma mset_map_filter:
  "mset (List.map_filter f xs) = image_mset (the \<circ> f) (filter_mset (\<lambda>x. f x \<noteq> None) (mset xs))"
  by (induction xs) (auto simp: List.map_filter_simps split: option.splits)

lemma map_filter_cong:
  "(\<And>x. x \<in> set xs \<Longrightarrow> f x = g x) \<Longrightarrow> List.map_filter f xs = List.map_filter g xs"
  by (induction xs) (auto simp: List.map_filter_simps split: option.split)

lemma map_filter_keys:
  "distinct_keys m \<Longrightarrow> List.map_filter (\<lambda>k. map_option (Pair k) (map_of m k)) (map fst m) = m"
proof (induction m)
  case Nil
  then show ?case by (simp add: List.map_filter_simps)
next
  case (Cons e m)
  have "List.map_filter (\<lambda>k. map_option (Pair k) (map_of (e # m) k)) (map fst m) =
        List.map_filter (\<lambda>k. map_option (Pair k) (map_of m k)) (map fst m)"
    using Cons.prems
    by (intro map_filter_cong) (auto simp: image_iff)
  with Cons show ?case by (cases e) (simp add: List.map_filter_simps)
qed

lemma mset_mapEntries [perm_simps]:
  assumes "distinct_keys m" and "perm_list ord"
  shows "mset (mapEntries ord m) = mset m"
proof -
  have "mset (mapEntries ord m) =
        mset (List.map_filter (\<lambda>k. map_option (Pair k) (map_of m k)) (map fst m))"
    using assms(2) by (simp add: mapEntries_def mset_map_filter perm_list_def)
  with assms(1) show ?thesis by (simp add: map_filter_keys)
qed

lemma mset_mapValues [perm_simps]:
  "distinct_keys m \<Longrightarrow> perm_list ord \<Longrightarrow> mset (mapValues ord m) = mset (map snd m)"
  by (simp add: mapValues_def mset_mapEntries)

lemma set_mapEntries [perm_simps]:
  "distinct_keys m \<Longrightarrow> perm_list ord \<Longrightarrow> set (mapEntries ord m) = set m"
  using mset_eq_setD mset_mapEntries by blast

lemma set_mapValues [perm_simps]:
  "distinct_keys m \<Longrightarrow> perm_list ord \<Longrightarrow> set (mapValues ord m) = snd ` set m"
  by (simp add: mapValues_def set_mapEntries)

lemma length_mapValues [perm_simps]:
  "distinct_keys m \<Longrightarrow> perm_list ord \<Longrightarrow> length (mapValues ord m) = length m"
  by (metis length_map mset_eq_length mset_mapValues)

lemma mapEntries_Nil [simp]: "perm_list ord \<Longrightarrow> mapEntries ord [] = []"
  using mset_mapEntries [of "[]" ord] by simp

lemma mapValues_Nil [simp]: "perm_list ord \<Longrightarrow> mapValues ord [] = []"
  by (simp add: mapValues_def)

section \<open>Calls made in an order\<close>

text \<open>
  \<^verbatim>\<open>slice.MapConcurrent(xs, f)\<close> calls \<open>f\<close> on every element, in an order the scheduler
  chooses, and returns the results at the positions of the elements; \<^verbatim>\<open>slice.Map\<close> does the
  same in sequence. Both are third-party functions: what the model takes of them is the
  order of the calls, an argument, with the hypothesis \<open>perm_order\<close> that it visits every
  position once. \<open>f\<close> acts on the state \<open>'s\<close>.
\<close>

fun callsInOrder ::
  "('a \<Rightarrow> 's \<Rightarrow> 'r \<times> 's) \<Rightarrow> 'a list \<Rightarrow> nat list \<Rightarrow> 'r list \<Rightarrow> 's \<Rightarrow> 'r list \<times> 's" where
  "callsInOrder f xs [] rs s = (rs, s)"
| "callsInOrder f xs (i # is) rs s =
     (let (r, s') = f (xs ! i) s in callsInOrder f xs is (rs[i := r]) s')"

definition sliceCalls ::
  "(nat \<Rightarrow> nat list) \<Rightarrow> 'r \<Rightarrow> ('a \<Rightarrow> 's \<Rightarrow> 'r \<times> 's) \<Rightarrow> 'a list \<Rightarrow> 's \<Rightarrow> 'r list \<times> 's" where
  "sliceCalls ord zero f xs s =
     callsInOrder f xs (ord (length xs)) (replicate (length xs) zero) s"

definition perm_order :: "(nat \<Rightarrow> nat list) \<Rightarrow> bool" where
  "perm_order ord \<longleftrightarrow> (\<forall>n. mset (ord n) = mset [0..<n])"

lemma perm_order_upt [simp]: "perm_order (\<lambda>n. [0..<n])"
  by (simp add: perm_order_def)

lemma set_perm_order [perm_simps]: "perm_order ord \<Longrightarrow> set (ord n) = {0..<n}"
  by (metis atLeastLessThan_upt mset_eq_setD perm_order_def)

lemma distinct_perm_order [perm_simps]: "perm_order ord \<Longrightarrow> distinct (ord n)"
  by (metis distinct_upt mset_eq_imp_distinct_iff perm_order_def)

lemma perm_order_0 [simp]: "perm_order ord \<Longrightarrow> ord 0 = []"
  by (metis mset_zero_iff perm_order_def upt_0)

lemma length_callsInOrder: "length (fst (callsInOrder f xs is rs s)) = length rs"
  by (induction "is" arbitrary: rs s) (auto split: prod.splits)

lemma length_sliceCalls [simp]: "length (fst (sliceCalls ord z f xs s)) = length xs"
  by (simp add: sliceCalls_def length_callsInOrder)

lemma sliceCalls_Nil [simp]: "perm_order ord \<Longrightarrow> sliceCalls ord z f [] s = ([], s)"
  by (simp add: sliceCalls_def)

text \<open>A predicate that every call keeps is kept by all of them.\<close>

lemma callsInOrder_state:
  assumes "\<And>i s. i \<in> set is \<Longrightarrow> P s \<Longrightarrow> P (snd (f (xs ! i) s))" and "P s"
  shows "P (snd (callsInOrder f xs is rs s))"
  using assms
proof (induction "is" arbitrary: rs s)
  case Nil
  then show ?case by simp
next
  case (Cons i "is")
  obtain r s' where call: "f (xs ! i) s = (r, s')" by (cases "f (xs ! i) s")
  with Cons.prems(1) [of i s] Cons.prems(2) have "P s'" by simp
  with Cons.IH [of s' "rs[i := r]"] Cons.prems(1) call show ?case by simp
qed

lemma sliceCalls_state:
  assumes "perm_order ord" and "\<And>x s. x \<in> set xs \<Longrightarrow> P s \<Longrightarrow> P (snd (f x s))" and "P s"
  shows "P (snd (sliceCalls ord z f xs s))"
  unfolding sliceCalls_def
  by (rule callsInOrder_state) (use assms in \<open>auto simp: perm_simps\<close>)

text \<open>
  Under an invariant \<open>I\<close> of the state, a fact \<open>Q x\<close> about the result of every call holds of
  the result at each position.
\<close>

lemma callsInOrder_results:
  assumes "\<And>i s. i \<in> set is \<Longrightarrow> I s \<Longrightarrow> I (snd (f (xs ! i) s)) \<and> Q (xs ! i) (fst (f (xs ! i) s))"
    and "I s" and "distinct is" and "\<forall>i\<in>set is. i < length rs" and "length rs = length xs"
    and "\<forall>i<length xs. i \<notin> set is \<longrightarrow> Q (xs ! i) (rs ! i)"
  shows "\<forall>i<length xs. Q (xs ! i) (fst (callsInOrder f xs is rs s) ! i)"
  using assms
proof (induction "is" arbitrary: rs s)
  case Nil
  then show ?case by simp
next
  case (Cons i "is")
  obtain r s' where call: "f (xs ! i) s = (r, s')" by (cases "f (xs ! i) s")
  have step: "I s'" "Q (xs ! i) r"
    using Cons.prems(1) [of i s] Cons.prems(2) call by auto
  have "\<forall>j<length xs. Q (xs ! j) (fst (callsInOrder f xs is (rs[i := r]) s') ! j)"
  proof (rule Cons.IH)
    show "\<forall>j<length xs. j \<notin> set is \<longrightarrow> Q (xs ! j) (rs[i := r] ! j)"
    proof (intro allI impI)
      fix j assume "j < length xs" and "j \<notin> set is"
      with Cons.prems(5,6) step(2) show "Q (xs ! j) (rs[i := r] ! j)"
        by (cases "j = i") auto
    qed
  qed (use Cons.prems step in auto)
  with call show ?case by simp
qed

lemma sliceCalls_results:
  assumes "perm_order ord"
    and "\<And>x s. x \<in> set xs \<Longrightarrow> I s \<Longrightarrow> I (snd (f x s)) \<and> Q x (fst (f x s))" and "I s"
  shows "\<forall>i<length xs. Q (xs ! i) (fst (sliceCalls ord z f xs s) ! i)"
  unfolding sliceCalls_def
  by (rule callsInOrder_results [where I = I]) (use assms in \<open>auto simp: perm_simps\<close>)

lemma sliceCalls_all:
  assumes "perm_order ord"
    and "\<And>x s. x \<in> set xs \<Longrightarrow> I s \<Longrightarrow> I (snd (f x s)) \<and> Q (fst (f x s))" and "I s"
  shows "\<forall>r\<in>set (fst (sliceCalls ord z f xs s)). Q r"
  using sliceCalls_results [of ord xs I f "\<lambda>_. Q" s z, OF assms]
  by (auto simp: in_set_conv_nth)

text \<open>Calls that do not read the state they change are a plain map.\<close>

lemma sliceCalls_pure:
  assumes "perm_order ord" and "\<And>x s. x \<in> set xs \<Longrightarrow> fst (f x s) = g x"
  shows "fst (sliceCalls ord z f xs s) = map g xs"
  using sliceCalls_results [of ord xs "\<lambda>_. True" f "\<lambda>x r. r = g x" s z] assms
  by (intro nth_equalityI) auto

section \<open>Signed 64-bit arithmetic\<close>

text \<open>
  \<^verbatim>\<open>int\<close> and \<^verbatim>\<open>time.Duration\<close> are 64-bit signed integers; \<open>wrap64\<close> is the wrap-around of
  their arithmetic.
\<close>

definition wrap64 :: "int \<Rightarrow> int" where
  "wrap64 x = signed_take_bit 63 x"

definition in64 :: "int \<Rightarrow> bool" where
  "in64 x \<longleftrightarrow> - (2 ^ 63) \<le> x \<and> x < 2 ^ 63"

lemma wrap64_id [simp]: "in64 x \<Longrightarrow> wrap64 x = x"
  by (simp add: wrap64_def in64_def signed_take_bit_int_eq_self)

lemma in64_wrap64 [simp]: "in64 (wrap64 x)"
  using signed_take_bit_int_greater_eq_minus_exp [of 63 x] signed_take_bit_int_less_exp [of 63 x]
  by (simp add: wrap64_def in64_def)

text \<open>\<^verbatim>\<open>%\<close> truncates; on non-negative operands it is the modulus.\<close>

lemma smod_int_of_nat: "int k smod int l = int (k mod l)"
  by (cases "k = 0") (simp_all add: smod_int_alt_def zmod_int)

definition millisecond :: int where "millisecond = 1000000"
definition second :: int where "second = 1000000000"
definition minute :: int where "minute = 60 * second"

lemmas duration_defs = millisecond_def second_def minute_def

section \<open>State machines\<close>

text \<open>
  A machine with an initial predicate, a step relation and an invariant: what its provider
  shows of one step, its clients know of every run.
\<close>

locale step_system =
  fixes start :: "'s \<Rightarrow> bool"
    and step :: "'s \<Rightarrow> 's \<Rightarrow> bool"
    and inv :: "'s \<Rightarrow> bool"
  assumes inv_start: "start s \<Longrightarrow> inv s"
    and inv_step: "inv s \<Longrightarrow> step s t \<Longrightarrow> inv t"
begin

lemma inv_steps: "step\<^sup>*\<^sup>* s t \<Longrightarrow> inv s \<Longrightarrow> inv t"
  by (induction rule: rtranclp_induct) (auto intro: inv_step)

lemma inv_run: "start s \<Longrightarrow> step\<^sup>*\<^sup>* s t \<Longrightarrow> inv t"
  using inv_start inv_steps by blast

end

text \<open>
  Steps that use something up: the number of steps of a run is bounded, and a run that can
  always go on calmly until it is final does come to a calm final state.
\<close>

locale shrinking =
  fixes step :: "'s \<Rightarrow> 's \<Rightarrow> bool"
    and inv :: "'s \<Rightarrow> bool"
    and weight :: "'s \<Rightarrow> nat"
  assumes keeps: "inv s \<Longrightarrow> step s t \<Longrightarrow> inv t"
    and shrinks: "inv s \<Longrightarrow> step s t \<Longrightarrow> weight t < weight s"
begin

lemma keeps_run: "inv s \<Longrightarrow> (step ^^ n) s t \<Longrightarrow> inv t"
  by (induction n arbitrary: t) (auto intro: keeps)

lemma bounded_run: "inv s \<Longrightarrow> (step ^^ n) s t \<Longrightarrow> n + weight t \<le> weight s"
proof (induction n arbitrary: t)
  case (Suc n)
  then obtain u where u: "(step ^^ n) s u" "step u t" by auto
  with Suc keeps_run shrinks have "n + weight u \<le> weight s" "weight t < weight u" by blast+
  then show ?case by simp
qed simp

end

locale winding_down = shrinking +
  fixes calm :: "'a \<Rightarrow> bool" and final :: "'a \<Rightarrow> bool"
  assumes goes_on: "inv s \<Longrightarrow> calm s \<Longrightarrow> \<not> final s \<Longrightarrow> \<exists>t. step s t \<and> calm t"
begin

lemma comes_to_rest:
  assumes "inv s" and "calm s"
  obtains t where "step\<^sup>*\<^sup>* s t" and "inv t" and "calm t" and "final t"
proof -
  have "\<exists>t. step\<^sup>*\<^sup>* s t \<and> inv t \<and> calm t \<and> final t"
    using assms
  proof (induction s rule: measure_induct_rule [of weight])
    case (less s)
    show ?case
    proof (cases "final s")
      case False
      with less.prems goes_on obtain t where t: "step s t" "calm t" by blast
      with less shrinks keeps obtain u where "step\<^sup>*\<^sup>* t u" "inv u" "calm u" "final u" by blast
      with t show ?thesis by (meson converse_rtranclp_into_rtranclp)
    qed (use less.prems in blast)
  qed
  then show ?thesis using that by blast
qed

end

end
