(* ===== verification/GoErrors.thy ===== *)
theory GoErrors
  imports Prelude
begin

text \<open>
  Errors (\<^verbatim>\<open>errors.go\<close>, the error half of \<^verbatim>\<open>client_resolver.go\<close>): error values, the sentinel
  errors of the package, the accumulation of the errors of a fan-out into one
  \<^verbatim>\<open>multierror.Error\<close>, and its one-line rendering. What a fan-out returns is characterised by
  \<open>aggregate\<close>: \<^verbatim>\<open>nil\<close> exactly when every call returned \<^verbatim>\<open>nil\<close>, otherwise all errors in order.
\<close>

section \<open>Error values\<close>

text \<open>
  \<^verbatim>\<open>errors.New\<close>, \<^verbatim>\<open>fmt.Errorf("...%w", e)\<close>, \<^verbatim>\<open>errors.Join\<close> and \<^verbatim>\<open>*multierror.Error\<close> (with
  whether its \<^verbatim>\<open>ErrorFormat\<close> is the one-line format). A returned \<^verbatim>\<open>error\<close> is an option,
  \<^verbatim>\<open>nil\<close> being \<^term>\<open>None\<close>.
\<close>

datatype goerror =
    ErrorString string
  | WrapError string goerror
  | JoinError "goerror list"
  | MultiError bool "goerror list"

type_synonym err = "goerror option"

definition ErrClientNotInitialized :: goerror where
  "ErrClientNotInitialized = ErrorString ''courier: client not initialized''"

definition errInvalidExecOpt :: goerror where
  "errInvalidExecOpt = ErrorString ''courier: invalid exec option''"

definition ErrConnectTimeout :: goerror where
  "ErrConnectTimeout =
     ErrorString ''client timed out while trying to connect to the broker''"

definition ErrPublishTimeout :: goerror where
  "ErrPublishTimeout = ErrorString ''publish timeout''"

definition ErrSubscribeTimeout :: goerror where
  "ErrSubscribeTimeout = ErrorString ''subscribe timeout''"

definition ErrUnsubscribeTimeout :: goerror where
  "ErrUnsubscribeTimeout = ErrorString ''unsubscribe timeout''"

definition ErrSubscribeMultipleTimeout :: goerror where
  "ErrSubscribeMultipleTimeout = ErrorString ''subscribe multiple timeout''"

lemmas sentinel_defs = ErrClientNotInitialized_def errInvalidExecOpt_def ErrConnectTimeout_def
  ErrPublishTimeout_def ErrSubscribeTimeout_def ErrUnsubscribeTimeout_def
  ErrSubscribeMultipleTimeout_def

text \<open>\<^verbatim>\<open>errors.Join\<close> of non-nil errors, and \<^verbatim>\<open>fmt.Errorf(prefix + "%w", errors.Join(errs...))\<close>.\<close>

definition errors_Join :: "goerror list \<Rightarrow> err" where
  "errors_Join es = (if es = [] then None else Some (JoinError es))"

definition errorfJoin :: "string \<Rightarrow> goerror list \<Rightarrow> goerror" where
  "errorfJoin prefix es = (case errors_Join es of
       None \<Rightarrow> ErrorString (prefix @ ''%!w(<nil>)'')
     | Some e \<Rightarrow> WrapError prefix e)"

text \<open>\<^verbatim>\<open>errors.As(err, &target)\<close> for a \<^verbatim>\<open>*multierror.Error\<close> target: depth first along \<^verbatim>\<open>Unwrap\<close>.\<close>

fun errors_As :: "goerror \<Rightarrow> goerror list option"
  and errors_As_any :: "goerror list \<Rightarrow> goerror list option" where
  "errors_As (ErrorString _) = None"
| "errors_As (WrapError _ e) = errors_As e"
| "errors_As (JoinError es) = errors_As_any es"
| "errors_As (MultiError _ es) = Some es"
| "errors_As_any [] = None"
| "errors_As_any (e # es) =
     (case errors_As e of None \<Rightarrow> errors_As_any es | Some m \<Rightarrow> Some m)"

section \<open>Accumulation\<close>

text \<open>
  The third-party functions the accumulation calls: \<^verbatim>\<open>multierror.Append\<close> on the error list of
  a \<^verbatim>\<open>multierror.Error\<close>, its \<^verbatim>\<open>ErrorOrNil\<close>, and \<^verbatim>\<open>slice.Reduce\<close>. \<open>errlib_ok\<close> is their documented
  behaviour: \<^verbatim>\<open>Append\<close> ignores \<^verbatim>\<open>nil\<close> and flattens multi-errors by one level, \<^verbatim>\<open>ErrorOrNil\<close> is \<^verbatim>\<open>nil\<close>
  for an empty list, \<^verbatim>\<open>Reduce\<close> folds from the zero value.
\<close>

record errlib =
  multierror_Append :: "goerror list \<Rightarrow> err list \<Rightarrow> goerror list"
  multierror_ErrorOrNil :: "bool \<Rightarrow> goerror list \<Rightarrow> err"
  slice_Reduce :: "(err \<Rightarrow> err \<Rightarrow> err) \<Rightarrow> err list \<Rightarrow> err"

fun flattenErr :: "err \<Rightarrow> goerror list" where
  "flattenErr None = []"
| "flattenErr (Some (MultiError b es)) = es"
| "flattenErr (Some e) = [e]"

definition errlib_ok :: "errlib \<Rightarrow> bool" where
  "errlib_ok L \<longleftrightarrow>
     (\<forall>es xs. multierror_Append L es xs = es @ concat (map flattenErr xs)) \<and>
     (\<forall>b es. multierror_ErrorOrNil L b es = (if es = [] then None else Some (MultiError b es))) \<and>
     (\<forall>f es. slice_Reduce L f es = foldl f None es)"

definition accumulateErrors :: "errlib \<Rightarrow> err \<Rightarrow> err \<Rightarrow> err" where
  "accumulateErrors L prev cur =
     (case (case prev of None \<Rightarrow> None | Some p \<Rightarrow> errors_As p) of
        Some es \<Rightarrow> multierror_ErrorOrNil L True (multierror_Append L es [cur])
      | None \<Rightarrow> multierror_ErrorOrNil L True (multierror_Append L [] [prev, cur]))"

definition reduceErrors :: "errlib \<Rightarrow> err list \<Rightarrow> err" where
  "reduceErrors L es = slice_Reduce L (accumulateErrors L) es"

definition aggregate :: "err list \<Rightarrow> err" where
  "aggregate es = (let fs = concat (map flattenErr es)
     in if fs = [] then None else Some (MultiError True fs))"

lemma accumulateErrors_None:
  "errlib_ok L \<Longrightarrow> accumulateErrors L None e = aggregate [e]"
  by (simp add: accumulateErrors_def errlib_ok_def aggregate_def)

lemma accumulateErrors_Multi:
  "errlib_ok L \<Longrightarrow> accumulateErrors L (Some (MultiError b es)) e =
     (if es @ flattenErr e = [] then None else Some (MultiError True (es @ flattenErr e)))"
  by (simp add: accumulateErrors_def errlib_ok_def)

lemma accumulateErrors_aggregate:
  "errlib_ok L \<Longrightarrow> accumulateErrors L (aggregate es) e = aggregate (es @ [e])"
  by (auto simp: aggregate_def Let_def accumulateErrors_None accumulateErrors_Multi)

lemma reduceErrors_aggregate: "errlib_ok L \<Longrightarrow> reduceErrors L es = aggregate es"
proof -
  assume ok: "errlib_ok L"
  have "foldl (accumulateErrors L) None es = aggregate es"
  proof (induction es rule: rev_induct)
    case Nil
    show ?case by (simp add: aggregate_def)
  next
    case (snoc e es)
    with ok show ?case by (simp add: accumulateErrors_aggregate)
  qed
  with ok show ?thesis by (simp add: reduceErrors_def errlib_ok_def)
qed

text \<open>
  A call that itself returned an aggregated error with no member is impossible
  (\<^verbatim>\<open>ErrorOrNil\<close> never returns one); \<open>solid\<close> excludes only that value.
\<close>

definition solid :: "err \<Rightarrow> bool" where
  "solid e \<longleftrightarrow> (\<forall>b. e \<noteq> Some (MultiError b []))"

lemma flattenErr_Nil_iff: "solid e \<Longrightarrow> flattenErr e = [] \<longleftrightarrow> e = None"
  by (cases e rule: flattenErr.cases) (auto simp: solid_def)

lemma aggregate_None_iff:
  "\<forall>e\<in>set es. solid e \<Longrightarrow> aggregate es = None \<longleftrightarrow> (\<forall>e\<in>set es. e = None)"
  by (auto simp: aggregate_def Let_def flattenErr_Nil_iff)

lemma aggregate_all_None: "\<forall>e\<in>set es. e = None \<Longrightarrow> aggregate es = None"
  by (auto simp: aggregate_def)

lemma solid_aggregate [simp]: "solid (aggregate es)"
  by (auto simp: solid_def aggregate_def Let_def)

lemma solid_None [simp]: "solid None"
  by (simp add: solid_def)

lemma aggregate_Nil [simp]: "aggregate [] = None"
  by (simp add: aggregate_def)

lemma solid_sentinel [simp]: "solid (Some (ErrorString s))"
  by (simp add: solid_def)

section \<open>Rendering\<close>

text \<open>\<^verbatim>\<open>strings.Join\<close>.\<close>

fun strings_Join :: "string list \<Rightarrow> string \<Rightarrow> string" where
  "strings_Join [] sep = []"
| "strings_Join [s] sep = s"
| "strings_Join (s # ss) sep = s @ sep @ strings_Join ss sep"

text \<open>The argument is the list of the texts \<^verbatim>\<open>es[i].Error()\<close>.\<close>

definition singleLineFormatFunc :: "string list \<Rightarrow> string" where
  "singleLineFormatFunc es =
     (if length es = 1 then ''1 error occurred: ['' @ es ! 0 @ '']''
      else dec (length es) @ '' errors occurred: '' @
           strings_Join (map (\<lambda>t. ''['' @ t @ '']'') es) '' | '')"

text \<open>\<^verbatim>\<open>Error()\<close>; the default list format of \<^verbatim>\<open>multierror\<close> is the argument \<open>lf\<close>.\<close>

fun errorText :: "(string list \<Rightarrow> string) \<Rightarrow> goerror \<Rightarrow> string" where
  "errorText lf (ErrorString s) = s"
| "errorText lf (WrapError p e) = p @ errorText lf e"
| "errorText lf (JoinError es) = strings_Join (map (errorText lf) es) [CHR 0x0A]"
| "errorText lf (MultiError b es) =
     (if b then singleLineFormatFunc (map (errorText lf) es) else lf (map (errorText lf) es))"

text \<open>
  An accumulated error is rendered by the one-line format over the texts of exactly the
  non-nil errors.
\<close>

lemma errorText_aggregate:
  assumes "aggregate es = Some e"
  shows "errorText lf e =
     singleLineFormatFunc (map (errorText lf) (concat (map flattenErr es)))"
  using assms by (auto simp: aggregate_def Let_def split: if_splits)

section \<open>Properties\<close>

text \<open>A library that behaves as documented.\<close>

definition refErrlib :: errlib where
  "refErrlib =
     \<lparr>multierror_Append = (\<lambda>es xs. es @ concat (map flattenErr xs)),
      multierror_ErrorOrNil = (\<lambda>b es. if es = [] then None else Some (MultiError b es)),
      slice_Reduce = (\<lambda>f es. foldl f None es)\<rparr>"

lemma errlib_ok_refErrlib [simp]: "errlib_ok refErrlib"
  by (simp add: errlib_ok_def refErrlib_def)

text \<open>
  C34: Accumulating the results of several calls one after the other gives what collecting them at
  once gives: no error exactly when every call returned none, and otherwise one error with the
  errors of all calls in the order of the calls, the members of an error that is itself an
  accumulation in its place, rendered on one line with the number of errors first.
\<close>

theorem errors_accumulated:
  assumes "errlib_ok L" and "list_all solid es"
  shows "reduceErrors L es =
      (if list_all (\<lambda>e. e = None) es then None else Some (MultiError True (concat (map flattenErr es)))) \<and>
    map_option (errorText lf) (reduceErrors L es) =
      (if list_all (\<lambda>e. e = None) es then None
       else Some (singleLineFormatFunc (map (errorText lf) (concat (map flattenErr es)))))"
proof -
  have "aggregate es = None \<longleftrightarrow> list_all (\<lambda>e. e = None) es"
    using aggregate_None_iff [of es] assms(2) by (simp add: list_all_iff)
  then have "reduceErrors L es =
      (if list_all (\<lambda>e. e = None) es then None else Some (MultiError True (concat (map flattenErr es))))"
    using reduceErrors_aggregate [OF assms(1), of es] by (auto simp: aggregate_def Let_def split: if_splits)
  then show ?thesis by simp
qed

theorem errors_accumulated_witness:
  "reduceErrors refErrlib [None, Some ErrPublishTimeout, Some (MultiError True [ErrConnectTimeout])] =
     Some (MultiError True [ErrPublishTimeout, ErrConnectTimeout]) \<and>
   map_option (errorText (\<lambda>_. [])) (reduceErrors refErrlib [Some ErrPublishTimeout, None]) =
     Some ''1 error occurred: [publish timeout]''"
  using errors_accumulated [OF errlib_ok_refErrlib, of "[None, Some ErrPublishTimeout, Some (MultiError True [ErrConnectTimeout])]"]
    errors_accumulated [OF errlib_ok_refErrlib, of "[Some ErrPublishTimeout, None]" "\<lambda>_. []"]
  by (simp add: sentinel_defs solid_def singleLineFormatFunc_def)

end
