(* ===== verification/Messages.thy ===== *)
theory Messages
  imports GoErrors
begin

text \<open>
  The message layer (\<^verbatim>\<open>context.go\<close>, \<^verbatim>\<open>options.go\<close>, \<^verbatim>\<open>encoder.go\<close>, \<^verbatim>\<open>decoder.go\<close>, \<^verbatim>\<open>message.go\<close>): the
  values a context carries, the per-call options, encoders and decoders with their chaining,
  and messages. Values of type \<^verbatim>\<open>interface{}\<close> are of the type variable \<open>'v\<close>. Function values the
  application passes in (callbacks, handlers) are named by references: calling one is an
  event of the caller's trace.
\<close>

type_synonym ref = nat
type_synonym byte = "8 word"
type_synonym bytes = "byte list"

section \<open>Contexts\<close>

text \<open>
  What the package reads of a \<^verbatim>\<open>context.Context\<close>: whether it has a deadline, and the values
  under its two keys. A callback stored as \<^verbatim>\<open>nil\<close> is \<^term>\<open>Some None\<close>.
\<close>

record gocontext =
  hasDeadline :: bool
  clientIDCallbackKey :: "ref option option"
  clientIDSubscribedKey :: "string option"

definition context_Background :: gocontext where
  "context_Background =
     \<lparr>hasDeadline = False, clientIDCallbackKey = None, clientIDSubscribedKey = None\<rparr>"

definition WithClientIDCallback :: "gocontext \<Rightarrow> ref option \<Rightarrow> gocontext" where
  "WithClientIDCallback ctx cb = ctx\<lparr>clientIDCallbackKey := Some cb\<rparr>"

text \<open>The call made, if any: the callback and its argument.\<close>

definition invokeClientIDCallback :: "gocontext \<Rightarrow> string \<Rightarrow> (ref \<times> string) option" where
  "invokeClientIDCallback ctx clientID = (case clientIDCallbackKey ctx of
       Some (Some cb) \<Rightarrow> Some (cb, clientID)
     | _ \<Rightarrow> None)"

definition withClientID :: "gocontext \<Rightarrow> string \<Rightarrow> gocontext" where
  "withClientID ctx clientID = ctx\<lparr>clientIDSubscribedKey := Some clientID\<rparr>"

definition ClientIDFromContext :: "gocontext \<Rightarrow> string" where
  "ClientIDFromContext ctx = (case clientIDSubscribedKey ctx of Some i \<Rightarrow> i | None \<Rightarrow> [])"

lemma ClientIDFromContext_withClientID [simp]:
  "ClientIDFromContext (withClientID ctx i) = i"
  by (simp add: ClientIDFromContext_def withClientID_def)

section \<open>Options of a call\<close>

type_synonym QOSLevel = byte

definition QOSZero :: QOSLevel where "QOSZero = 0"
definition QOSOne :: QOSLevel where "QOSOne = 1"
definition QOSTwo :: QOSLevel where "QOSTwo = 2"

datatype Option = QOSOption QOSLevel | Retained bool

record options =
  qos :: byte
  retained :: bool

fun applyOption :: "Option \<Rightarrow> options \<Rightarrow> options" where
  "applyOption (QOSOption q) o1 = o1\<lparr>qos := q\<rparr>"
| "applyOption (Retained r) o1 = o1\<lparr>retained := r\<rparr>"

definition composeOptions :: "Option list \<Rightarrow> options" where
  "composeOptions opts = fold applyOption opts \<lparr>qos = 0, retained = False\<rparr>"

text \<open>The level the last quality-of-service option of a list sets, if there is one.\<close>

fun lastQoS :: "Option list \<Rightarrow> QOSLevel option" where
  "lastQoS [] = None"
| "lastQoS (Retained _ # os) = lastQoS os"
| "lastQoS (QOSOption q # os) = (case lastQoS os of None \<Rightarrow> Some q | Some q' \<Rightarrow> Some q')"

fun lastRetained :: "Option list \<Rightarrow> bool option" where
  "lastRetained [] = None"
| "lastRetained (QOSOption _ # os) = lastRetained os"
| "lastRetained (Retained r # os) =
     (case lastRetained os of None \<Rightarrow> Some r | Some r' \<Rightarrow> Some r')"

lemma qos_fold: "qos (fold applyOption os o1) = (case lastQoS os of None \<Rightarrow> qos o1 | Some q \<Rightarrow> q)"
  by (induction os arbitrary: o1 rule: lastQoS.induct) (auto split: option.splits)

lemma retained_fold:
  "retained (fold applyOption os o1) = (case lastRetained os of None \<Rightarrow> retained o1 | Some r \<Rightarrow> r)"
  by (induction os arbitrary: o1 rule: lastRetained.induct) (auto split: option.splits)

lemma qos_composeOptions: "qos (composeOptions os) = (case lastQoS os of None \<Rightarrow> 0 | Some q \<Rightarrow> q)"
  by (simp add: composeOptions_def qos_fold split: option.split)

lemma retained_composeOptions:
  "retained (composeOptions os) = (case lastRetained os of None \<Rightarrow> False | Some r \<Rightarrow> r)"
  by (simp add: composeOptions_def retained_fold split: option.split)

section \<open>Encoders\<close>

text \<open>
  An encoder writes to the writer it was created with: given the value and the bytes
  written so far, it returns an error and the bytes written then.
\<close>

type_synonym 'v Encoder = "'v \<Rightarrow> bytes \<Rightarrow> err \<times> bytes"
type_synonym 'v EncoderFunc = "gocontext \<Rightarrow> 'v Encoder"

text \<open>\<^verbatim>\<open>json.NewEncoder\<close> is the argument \<open>jsonEnc\<close>.\<close>

definition DefaultEncoderFunc :: "'v Encoder \<Rightarrow> 'v EncoderFunc" where
  "DefaultEncoderFunc jsonEnc ctx = jsonEnc"

fun chainEncoder_Encode :: "'v Encoder list \<Rightarrow> goerror list \<Rightarrow> 'v Encoder" where
  "chainEncoder_Encode [] errs v buf = (Some (errorfJoin ''all encoders failed: '' errs), buf)"
| "chainEncoder_Encode (enc # encs) errs v buf = (case enc v buf of
       (Some e, buf') \<Rightarrow> chainEncoder_Encode encs (errs @ [e]) v buf'
     | (None, buf') \<Rightarrow> (None, buf'))"

definition ChainEncoderFunc :: "'v EncoderFunc list \<Rightarrow> 'v EncoderFunc" where
  "ChainEncoderFunc encoders ctx = chainEncoder_Encode (map (\<lambda>fn. fn ctx) encoders) []"

section \<open>Decoders\<close>

text \<open>
  A reader is what it will deliver and the error it ends with, if any. A decoder may be
  called several times: given the number of earlier calls and the target, it returns an
  error and the target as the call leaves it.
\<close>

datatype reader = Reader (readData: bytes) (readErr: err)

type_synonym 'v Decoder = "nat \<Rightarrow> 'v \<Rightarrow> err \<times> 'v"
type_synonym 'v DecoderFunc = "gocontext \<Rightarrow> reader \<Rightarrow> 'v Decoder"

definition bytes_NewReader :: "bytes \<Rightarrow> reader" where
  "bytes_NewReader b = Reader b None"

text \<open>\<^verbatim>\<open>json.NewDecoder\<close> and \<^verbatim>\<open>base64.NewDecoder\<close> are arguments.\<close>

definition DefaultDecoderFunc :: "(reader \<Rightarrow> 'v Decoder) \<Rightarrow> 'v DecoderFunc" where
  "DefaultDecoderFunc jsonDec ctx r = jsonDec r"

definition base64JsonDecoder ::
  "(reader \<Rightarrow> reader) \<Rightarrow> (reader \<Rightarrow> 'v Decoder) \<Rightarrow> 'v DecoderFunc" where
  "base64JsonDecoder b64 jsonDec ctx r = jsonDec (b64 r)"

fun chainDecoder_Decode ::
  "'v DecoderFunc list \<Rightarrow> gocontext \<Rightarrow> bytes \<Rightarrow> goerror list \<Rightarrow> 'v \<Rightarrow> err \<times> 'v" where
  "chainDecoder_Decode [] ctx data errs v =
     (Some (errorfJoin ''all decoders failed: '' errs), v)"
| "chainDecoder_Decode (fn # fns) ctx data errs v = (case fn ctx (bytes_NewReader data) 0 v of
       (Some e, v') \<Rightarrow> chainDecoder_Decode fns ctx data (errs @ [e]) v'
     | (None, v') \<Rightarrow> (None, v'))"

text \<open>
  The chain reads the whole reader when it is created, so its calls do not depend on how
  many came before.
\<close>

definition ChainDecoderFunc :: "'v DecoderFunc list \<Rightarrow> 'v DecoderFunc" where
  "ChainDecoderFunc decoders ctx r = (case readErr r of
       Some _ \<Rightarrow> (\<lambda>_. chainDecoder_Decode [] context_Background [] [])
     | None \<Rightarrow> (\<lambda>_. chainDecoder_Decode decoders ctx (readData r) []))"

section \<open>Messages\<close>

record 'v Message =
  ID :: int
  Topic :: string
  Duplicate :: bool
  RetainedFlag :: bool
  QoS :: QOSLevel
  payloadDecoder :: "'v Decoder"

definition NewMessageWithDecoder :: "'v Decoder \<Rightarrow> 'v Message" where
  "NewMessageWithDecoder d =
     \<lparr>ID = 0, Topic = [], Duplicate = False, RetainedFlag = False, QoS = 0, payloadDecoder = d\<rparr>"

definition DecodePayload :: "'v Message \<Rightarrow> nat \<Rightarrow> 'v \<Rightarrow> err \<times> 'v" where
  "DecodePayload m k v = payloadDecoder m k v"

section \<open>Lemmas on chains\<close>

lemma chainEncoder_all_fail:
  assumes "\<forall>enc\<in>set encs. \<forall>buf. fst (enc v buf) \<noteq> None"
  shows "\<exists>es. length es = length encs \<and>
     fst (chainEncoder_Encode encs errs v buf) =
       Some (errorfJoin ''all encoders failed: '' (errs @ es))"
  using assms
proof (induction encs arbitrary: errs buf)
  case Nil
  then show ?case by simp
next
  case (Cons enc encs)
  obtain r buf' where call: "enc v buf = (r, buf')" by (cases "enc v buf")
  with Cons.prems have "r \<noteq> None" by (metis fst_conv list.set_intros(1))
  then obtain e where r: "r = Some e" by blast
  from Cons.prems Cons.IH [of "errs @ [e]" buf'] obtain es
    where "length es = length encs" and "fst (chainEncoder_Encode encs (errs @ [e]) v buf') =
       Some (errorfJoin ''all encoders failed: '' ((errs @ [e]) @ es))"
    by auto
  with call r show ?case by (intro exI [of _ "e # es"]) simp
qed

lemma chainEncoder_prefix_fails:
  assumes "\<forall>enc\<in>set pre. \<forall>buf. fst (enc v buf) \<noteq> None"
    and "\<And>buf. fst (enc v buf) = None"
  shows "chainEncoder_Encode (pre @ enc # post) errs v buf =
     (None, snd (enc v (fold (\<lambda>en b. snd (en v b)) pre buf)))"
  using assms(1)
proof (induction pre arbitrary: errs buf)
  case Nil
  with assms(2) [of buf] show ?case by (cases "enc v buf") auto
next
  case (Cons en pre)
  obtain r buf' where call: "en v buf = (r, buf')" by (cases "en v buf")
  with Cons.prems obtain e where "r = Some e" by (metis fst_conv list.set_intros(1) not_None_eq)
  with call Cons show ?case by simp
qed

lemma chainDecoder_prefix_fails:
  assumes "\<forall>fn\<in>set pre. \<forall>t. fst (fn ctx (bytes_NewReader data) 0 t) \<noteq> None"
    and "\<And>t. fst (fn ctx (bytes_NewReader data) 0 t) = None"
  shows "chainDecoder_Decode (pre @ fn # post) ctx data errs v =
     (None, snd (fn ctx (bytes_NewReader data) 0
       (fold (\<lambda>g t. snd (g ctx (bytes_NewReader data) 0 t)) pre v)))"
  using assms(1)
proof (induction pre arbitrary: errs v)
  case Nil
  with assms(2) [of v] show ?case
    by (cases "fn ctx (bytes_NewReader data) 0 v") auto
next
  case (Cons g pre)
  obtain r t where call: "g ctx (bytes_NewReader data) 0 v = (r, t)"
    by (cases "g ctx (bytes_NewReader data) 0 v")
  with Cons.prems obtain e where "r = Some e" by (metis fst_conv list.set_intros(1) not_None_eq)
  with call Cons show ?case by simp
qed

end
