(* ===== verification/Options.thy ===== *)
theory Options
  imports Messages
begin

text \<open>
  Client configuration (\<^verbatim>\<open>client_options.go\<close>, the options of \<^verbatim>\<open>log.go\<close>, \<^verbatim>\<open>metrics.go\<close>,
  \<^verbatim>\<open>client_credentials.go\<close>, \<^verbatim>\<open>client_resolver.go\<close> and \<^verbatim>\<open>exp_starter.go\<close>, and the checks of
  \<^verbatim>\<open>NewClient\<close>): the options structure, every option the package exports, the defaults, and
  the invariant that every configuration built from them satisfies.
\<close>

section \<open>Log levels\<close>

text \<open>\<^verbatim>\<open>LogLevel\<close> and \<^verbatim>\<open>mqtt.LogLevel\<close>; the third-party constants are named by the latter.\<close>

type_synonym LogLevel = int

definition LogLevelDefault :: LogLevel where "LogLevelDefault = 0"
definition LogLevelDebug :: LogLevel where "LogLevelDebug = 1"
definition LogLevelWarn :: LogLevel where "LogLevelWarn = 2"
definition LogLevelError :: LogLevel where "LogLevelError = 3"

lemmas loglevel_defs = LogLevelDefault_def LogLevelDebug_def LogLevelWarn_def LogLevelError_def

datatype mqttLogLevel = PahoLogDefault | PahoLogDebug | PahoLogWarn | PahoLogError

definition defaultPahoLogLevel :: mqttLogLevel where
  "defaultPahoLogLevel = PahoLogDefault"

definition toPahoLogLevel :: "LogLevel \<Rightarrow> mqttLogLevel" where
  "toPahoLogLevel l =
     (if l = LogLevelDefault then PahoLogDefault
      else if l = LogLevelDebug then PahoLogDebug
      else if l = LogLevelWarn then PahoLogWarn
      else if l = LogLevelError then PahoLogError
      else PahoLogDefault)"

definition ParseLogLevel :: "string \<Rightarrow> LogLevel" where
  "ParseLogLevel level =
     (if level = ''none'' then LogLevelDefault
      else if level = ''debug'' then LogLevelDebug
      else if level = ''warn'' then LogLevelWarn
      else if level = ''error'' then LogLevelError
      else LogLevelDefault)"

section \<open>The options structure\<close>

record connectRetryPolicy =
  enabled :: bool
  interval :: int

record startOptions =
  onRetry :: "ref option"
  maxInterval :: int

record infoEmitterConfig =
  emitInterval :: int
  emitter :: "ref option"

record Credential =
  credUsername :: string
  credPassword :: string

text \<open>
  Interfaces and function values that only the application provides are references, \<^verbatim>\<open>nil\<close>
  being \<^term>\<open>None\<close>.
\<close>

record 'v clientOptions =
  username :: string
  clientID :: string
  password :: string
  brokerAddress :: string
  resolver :: "ref option"
  credentialFetcher :: "ref option"
  tlsConfig :: "ref option"
  autoReconnect :: bool
  maintainOrder :: bool
  cleanSession :: bool
  multiConnectionMode :: bool
  resumeSubscriptionsOpt :: bool
  poolEnabled :: bool
  connectTimeout :: int
  writeTimeout :: int
  keepAlive :: int
  maxReconnectInterval :: int
  gracefulShutdownPeriod :: int
  credentialFetchTimeout :: int
  ackTimeout :: int
  retryPolicy :: connectRetryPolicy
  startOpts :: "startOptions option"
  onConnectHandler :: "ref option"
  onConnectionLostHandler :: "ref option"
  onReconnectHandler :: "ref option"
  sharedSubscriptionPredicate :: "string \<Rightarrow> bool"
  logger :: "ref option"
  infoEmitterCfg :: "infoEmitterConfig option"
  pahoLogLevel :: mqttLogLevel
  newEncoder :: "'v EncoderFunc"
  newDecoder :: "'v DecoderFunc"
  store :: ref
  poolSize :: int

definition strings_HasPrefix :: "string \<Rightarrow> string \<Rightarrow> bool" where
  "strings_HasPrefix s p \<longleftrightarrow> take (length p) s = p"

definition defaultSharedSubscriptionPredicate :: "string \<Rightarrow> bool" where
  "defaultSharedSubscriptionPredicate topic = strings_HasPrefix topic ''$share/''"

text \<open>The package-level default logger and store, as references.\<close>

definition defaultLogger :: ref where "defaultLogger = 0"
definition inMemoryPersistence :: ref where "inMemoryPersistence = 0"

definition defaultClientOptions ::
  "'v Encoder \<Rightarrow> (reader \<Rightarrow> 'v Decoder) \<Rightarrow> 'v clientOptions" where
  "defaultClientOptions jsonEnc jsonDec =
     \<lparr>username = [], clientID = [], password = [], brokerAddress = [],
      resolver = None, credentialFetcher = None, tlsConfig = None,
      autoReconnect = True, maintainOrder = True, cleanSession = False,
      multiConnectionMode = False, resumeSubscriptionsOpt = False, poolEnabled = False,
      connectTimeout = 15 * second, writeTimeout = 10 * second, keepAlive = 60 * second,
      maxReconnectInterval = 5 * minute, gracefulShutdownPeriod = 30 * second,
      credentialFetchTimeout = 10 * second, ackTimeout = 0,
      retryPolicy = \<lparr>enabled = False, interval = 10 * second\<rparr>,
      startOpts = None,
      onConnectHandler = None, onConnectionLostHandler = None, onReconnectHandler = None,
      sharedSubscriptionPredicate = defaultSharedSubscriptionPredicate,
      logger = Some defaultLogger, infoEmitterCfg = None, pahoLogLevel = defaultPahoLogLevel,
      newEncoder = DefaultEncoderFunc jsonEnc, newDecoder = DefaultDecoderFunc jsonDec,
      store = inMemoryPersistence, poolSize = 0\<rparr>"

section \<open>Options of the exponential start\<close>

type_synonym StartOption = "startOptions \<Rightarrow> startOptions"

definition WithMaxInterval :: "int \<Rightarrow> StartOption" where
  "WithMaxInterval d o1 = (if d > 0 then o1\<lparr>maxInterval := d\<rparr> else o1)"

definition WithOnRetry :: "ref option \<Rightarrow> StartOption" where
  "WithOnRetry f o1 = o1\<lparr>onRetry := f\<rparr>"

definition defaultStartOptions :: startOptions where
  "defaultStartOptions = \<lparr>onRetry = None, maxInterval = 30 * second\<rparr>"

section \<open>Client options\<close>

type_synonym 'v ClientOption = "'v clientOptions \<Rightarrow> 'v clientOptions"

definition TCPAddress_text :: "string \<Rightarrow> 16 word \<Rightarrow> string" where
  "TCPAddress_text host port = host @ '':'' @ dec (unat port)"

definition WithClientID :: "string \<Rightarrow> 'v ClientOption" where
  "WithClientID c o1 = o1\<lparr>clientID := c\<rparr>"

definition WithUsername :: "string \<Rightarrow> 'v ClientOption" where
  "WithUsername u o1 = o1\<lparr>username := u\<rparr>"

definition WithPassword :: "string \<Rightarrow> 'v ClientOption" where
  "WithPassword p o1 = o1\<lparr>password := p\<rparr>"

definition WithTLS :: "ref option \<Rightarrow> 'v ClientOption" where
  "WithTLS t o1 = o1\<lparr>tlsConfig := t\<rparr>"

definition WithAutoReconnect :: "bool \<Rightarrow> 'v ClientOption" where
  "WithAutoReconnect b o1 = o1\<lparr>autoReconnect := b\<rparr>"

definition WithCleanSession :: "bool \<Rightarrow> 'v ClientOption" where
  "WithCleanSession b o1 = o1\<lparr>cleanSession := b\<rparr>"

definition WithMaintainOrder :: "bool \<Rightarrow> 'v ClientOption" where
  "WithMaintainOrder b o1 = o1\<lparr>maintainOrder := b\<rparr>"

definition WithOnConnect :: "ref option \<Rightarrow> 'v ClientOption" where
  "WithOnConnect h o1 = o1\<lparr>onConnectHandler := h\<rparr>"

definition WithOnConnectionLost :: "ref option \<Rightarrow> 'v ClientOption" where
  "WithOnConnectionLost h o1 = o1\<lparr>onConnectionLostHandler := h\<rparr>"

definition WithOnReconnect :: "ref option \<Rightarrow> 'v ClientOption" where
  "WithOnReconnect h o1 = o1\<lparr>onReconnectHandler := h\<rparr>"

definition WithTCPAddress :: "string \<Rightarrow> 16 word \<Rightarrow> 'v ClientOption" where
  "WithTCPAddress host port o1 = o1\<lparr>brokerAddress := TCPAddress_text host port\<rparr>"

definition WithAddress :: "string \<Rightarrow> 16 word \<Rightarrow> 'v ClientOption" where
  "WithAddress host port o1 = o1\<lparr>brokerAddress := TCPAddress_text host port\<rparr>"

definition KeepAlive :: "int \<Rightarrow> 'v ClientOption" where
  "KeepAlive d o1 = o1\<lparr>keepAlive := d\<rparr>"

definition WithKeepAlive :: "int \<Rightarrow> 'v ClientOption" where
  "WithKeepAlive d o1 = o1\<lparr>keepAlive := d\<rparr>"

definition WithConnectTimeout :: "int \<Rightarrow> 'v ClientOption" where
  "WithConnectTimeout d o1 = o1\<lparr>connectTimeout := d\<rparr>"

definition WithWriteTimeout :: "int \<Rightarrow> 'v ClientOption" where
  "WithWriteTimeout d o1 = o1\<lparr>writeTimeout := d\<rparr>"

definition WithMaxReconnectInterval :: "int \<Rightarrow> 'v ClientOption" where
  "WithMaxReconnectInterval d o1 = o1\<lparr>maxReconnectInterval := d\<rparr>"

definition WithGracefulShutdownPeriod :: "int \<Rightarrow> 'v ClientOption" where
  "WithGracefulShutdownPeriod d o1 = o1\<lparr>gracefulShutdownPeriod := d\<rparr>"

definition WithPersistence :: "ref \<Rightarrow> 'v ClientOption" where
  "WithPersistence s o1 = o1\<lparr>store := s\<rparr>"

definition EncoderFunc_apply :: "'v EncoderFunc \<Rightarrow> 'v ClientOption" where
  "EncoderFunc_apply f o1 = o1\<lparr>newEncoder := f\<rparr>"

definition DecoderFunc_apply :: "'v DecoderFunc \<Rightarrow> 'v ClientOption" where
  "DecoderFunc_apply f o1 = o1\<lparr>newDecoder := f\<rparr>"

definition WithCustomEncoder :: "'v EncoderFunc \<Rightarrow> 'v ClientOption" where
  "WithCustomEncoder f = EncoderFunc_apply f"

definition WithCustomDecoder :: "'v DecoderFunc \<Rightarrow> 'v ClientOption" where
  "WithCustomDecoder f = DecoderFunc_apply f"

definition WithUseBase64Decoder ::
  "(reader \<Rightarrow> reader) \<Rightarrow> (reader \<Rightarrow> 'v Decoder) \<Rightarrow> 'v ClientOption" where
  "WithUseBase64Decoder b64 jsonDec o1 = o1\<lparr>newDecoder := base64JsonDecoder b64 jsonDec\<rparr>"

definition WithPoolSize :: "int \<Rightarrow> 'v ClientOption" where
  "WithPoolSize n o1 = (if n > 0 then o1\<lparr>poolSize := n, poolEnabled := n > 1\<rparr> else o1)"

definition WithExponentialStartOptions :: "StartOption list \<Rightarrow> 'v ClientOption" where
  "WithExponentialStartOptions opts o1 =
     o1\<lparr>startOpts := Some (fold (\<lambda>opt. opt) opts defaultStartOptions)\<rparr>"

definition WithAckTimeout :: "int \<Rightarrow> 'v ClientOption" where
  "WithAckTimeout d o1 = o1\<lparr>ackTimeout := d\<rparr>"

definition ConnectRetryInterval :: "int \<Rightarrow> 'v ClientOption" where
  "ConnectRetryInterval d o1 = o1\<lparr>retryPolicy := (retryPolicy o1)\<lparr>enabled := True, interval := d\<rparr>\<rparr>"

definition SharedSubscriptionPredicate :: "(string \<Rightarrow> bool) \<Rightarrow> 'v ClientOption" where
  "SharedSubscriptionPredicate p o1 = o1\<lparr>sharedSubscriptionPredicate := p\<rparr>"

definition UseMultiConnectionMode :: "'v ClientOption" where
  "UseMultiConnectionMode o1 = o1\<lparr>multiConnectionMode := True\<rparr>"

definition ResumeSubscriptions :: "'v ClientOption" where
  "ResumeSubscriptions o1 = o1\<lparr>resumeSubscriptionsOpt := True\<rparr>"

definition WithResolver :: "ref option \<Rightarrow> 'v ClientOption" where
  "WithResolver r o1 = o1\<lparr>resolver := r\<rparr>"

definition WithCredentialFetcher :: "ref option \<Rightarrow> 'v ClientOption" where
  "WithCredentialFetcher f o1 = o1\<lparr>credentialFetcher := f\<rparr>"

definition WithLogger :: "ref option \<Rightarrow> 'v ClientOption" where
  "WithLogger l o1 = o1\<lparr>logger := l\<rparr>"

definition WithPahoLogLevel :: "LogLevel \<Rightarrow> 'v ClientOption" where
  "WithPahoLogLevel l o1 = o1\<lparr>pahoLogLevel := toPahoLogLevel l\<rparr>"

definition ClientInfoEmitterConfig_apply :: "infoEmitterConfig option \<Rightarrow> 'v ClientOption" where
  "ClientInfoEmitterConfig_apply cfg o1 = o1\<lparr>infoEmitterCfg := cfg\<rparr>"

lemmas option_setter_defs = WithClientID_def WithUsername_def WithPassword_def WithTLS_def
  WithAutoReconnect_def WithCleanSession_def WithMaintainOrder_def WithOnConnect_def
  WithOnConnectionLost_def WithOnReconnect_def WithTCPAddress_def WithAddress_def KeepAlive_def
  WithKeepAlive_def WithConnectTimeout_def WithWriteTimeout_def WithMaxReconnectInterval_def
  WithGracefulShutdownPeriod_def WithPersistence_def EncoderFunc_apply_def DecoderFunc_apply_def
  WithCustomEncoder_def WithCustomDecoder_def WithUseBase64Decoder_def WithAckTimeout_def
  ConnectRetryInterval_def SharedSubscriptionPredicate_def ResumeSubscriptions_def
  WithResolver_def WithCredentialFetcher_def WithLogger_def WithPahoLogLevel_def
  ClientInfoEmitterConfig_apply_def

text \<open>
  \<^verbatim>\<open>ClientOption\<close> has an unexported method, so these are all the options there are; a
  \<^verbatim>\<open>StartOption\<close> takes an unexported type.
\<close>

inductive packageStartOption :: "StartOption \<Rightarrow> bool" where
  "packageStartOption (WithMaxInterval d)"
| "packageStartOption (WithOnRetry f)"

inductive packageOption :: "'v ClientOption \<Rightarrow> bool" where
  "packageOption (WithClientID s)"
| "packageOption (WithUsername s)"
| "packageOption (WithPassword s)"
| "packageOption (WithTLS r)"
| "packageOption (WithAutoReconnect b)"
| "packageOption (WithCleanSession b)"
| "packageOption (WithMaintainOrder b)"
| "packageOption (WithOnConnect r)"
| "packageOption (WithOnConnectionLost r)"
| "packageOption (WithOnReconnect r)"
| "packageOption (WithTCPAddress s p)"
| "packageOption (WithAddress s p)"
| "packageOption (KeepAlive d)"
| "packageOption (WithKeepAlive d)"
| "packageOption (WithConnectTimeout d)"
| "packageOption (WithWriteTimeout d)"
| "packageOption (WithMaxReconnectInterval d)"
| "packageOption (WithGracefulShutdownPeriod d)"
| "packageOption (WithPersistence i)"
| "packageOption (WithCustomEncoder enc)"
| "packageOption (WithCustomDecoder decd)"
| "packageOption (WithUseBase64Decoder b64 js)"
| "packageOption (WithPoolSize n)"
| "list_all packageStartOption os \<Longrightarrow> packageOption (WithExponentialStartOptions os)"
| "packageOption (WithAckTimeout d)"
| "packageOption (ConnectRetryInterval d)"
| "packageOption (SharedSubscriptionPredicate f)"
| "packageOption UseMultiConnectionMode"
| "packageOption ResumeSubscriptions"
| "packageOption (WithResolver r)"
| "packageOption (WithCredentialFetcher r)"
| "packageOption (WithLogger r)"
| "packageOption (WithPahoLogLevel l)"
| "packageOption (ClientInfoEmitterConfig_apply cfg)"

section \<open>The configuration invariant\<close>

text \<open>
  Pooling is on exactly for pool sizes above one, and the maximal start interval is
  positive.
\<close>

definition wfOptions :: "'v clientOptions \<Rightarrow> bool" where
  "wfOptions o1 \<longleftrightarrow> (poolEnabled o1 \<longleftrightarrow> poolSize o1 > 1) \<and> poolSize o1 \<ge> 0 \<and>
     (\<forall>so. startOpts o1 = Some so \<longrightarrow> maxInterval so > 0)"

lemma wfOptions_default [simp]: "wfOptions (defaultClientOptions je jd)"
  by (simp add: wfOptions_def defaultClientOptions_def)

lemma packageStartOption_maxInterval:
  "packageStartOption opt \<Longrightarrow> maxInterval so > 0 \<Longrightarrow> maxInterval (opt so) > 0"
  by (induction rule: packageStartOption.induct) (auto simp: WithMaxInterval_def WithOnRetry_def)

lemma fold_packageStartOption:
  "list_all packageStartOption os \<Longrightarrow> maxInterval so > 0 \<Longrightarrow>
     maxInterval (fold (\<lambda>opt. opt) os so) > 0"
  by (induction os arbitrary: so) (auto simp: packageStartOption_maxInterval)

lemma packageOption_wfOptions: "packageOption opt \<Longrightarrow> wfOptions o1 \<Longrightarrow> wfOptions (opt o1)"
proof (induction rule: packageOption.induct)
  case (24 os)
  have "maxInterval defaultStartOptions > 0"
    by (simp add: defaultStartOptions_def second_def)
  with 24 fold_packageStartOption show ?case
    by (auto simp: wfOptions_def WithExponentialStartOptions_def)
qed (auto simp: wfOptions_def option_setter_defs WithPoolSize_def UseMultiConnectionMode_def)

definition applyOptions :: "'v ClientOption list \<Rightarrow> 'v clientOptions \<Rightarrow> 'v clientOptions" where
  "applyOptions opts o1 = fold (\<lambda>opt. opt) opts o1"

lemma wfOptions_applyOptions:
  "list_all packageOption opts \<Longrightarrow> wfOptions o1 \<Longrightarrow> wfOptions (applyOptions opts o1)"
  by (induction opts arbitrary: o1) (auto simp: applyOptions_def packageOption_wfOptions)

section \<open>The checks of NewClient\<close>

definition errNoAddress :: goerror where
  "errNoAddress = ErrorString ''at least WithAddress or WithResolver ClientOption should be used''"

definition errPoolAndMulti :: goerror where
  "errPoolAndMulti = ErrorString ''poolEnabled and multiConnectionMode cannot be used together''"

definition errEmitterInterval :: goerror where
  "errEmitterInterval =
     ErrorString ''client info emitter interval must be greater than or equal to 1s''"

text \<open>
  \<^verbatim>\<open>co.infoEmitterCfg != nil && co.infoEmitterCfg.Emitter != nil\<close>; for a non-negative
  interval \<^verbatim>\<open>d.Seconds() < 1\<close> is \<open>d < second\<close>, and a negative one is below both.
\<close>

definition emitterSet :: "'v clientOptions \<Rightarrow> bool" where
  "emitterSet co = (case infoEmitterCfg co of None \<Rightarrow> False | Some cfg \<Rightarrow> emitter cfg \<noteq> None)"

definition emitterIntervalOf :: "'v clientOptions \<Rightarrow> int" where
  "emitterIntervalOf co = (case infoEmitterCfg co of None \<Rightarrow> 0 | Some cfg \<Rightarrow> emitInterval cfg)"

definition checkOptions :: "'v clientOptions \<Rightarrow> err" where
  "checkOptions co =
     (if brokerAddress co = [] \<and> resolver co = None then Some errNoAddress
      else if poolEnabled co \<and> multiConnectionMode co then Some errPoolAndMulti
      else if emitterSet co \<and> emitterIntervalOf co < second then Some errEmitterInterval
      else None)"

end
