(* ===== verification/Client.thy ===== *)
theory Client
  imports Options
begin

text \<open>
  The state of a client and the dispatch of an operation to its connections (the \<^verbatim>\<open>Client\<close>
  structure of \<^verbatim>\<open>client.go\<close>, \<^verbatim>\<open>exec.go\<close>, \<^verbatim>\<open>clientIDMapper\<close> of \<^verbatim>\<open>client_resolver.go\<close>).

  Calls on the third-party MQTT clients, and calls of application functions, are events
  appended to the client's trace; what the third-party code answers is given by the
  environment \<open>ext\<close>, an argument of every operation, and may depend on the whole trace.
  The \<^verbatim>\<open>internalState\<close> objects that \<^verbatim>\<open>mqttClients\<close> and \<^verbatim>\<open>orderedClients\<close> share are in an explicit
  store, indexed by address.
\<close>

section \<open>Outcomes\<close>

datatype gopanic = DivideByZero | IndexOutOfRange | NilDereference | IntnArgument

text \<open>
  A call returns an \<^verbatim>\<open>error\<close> value, panics, or (a loop that was cut off by the bound of the
  model) has not returned.
\<close>

datatype outcome = Return (returned: err) | Panic gopanic | Blocked

type_synonym 's act = "'s \<Rightarrow> outcome \<times> 's"

text \<open>The results of a fan-out: a panicking goroutine takes the process down.\<close>

definition joinOutcomes :: "errlib \<Rightarrow> outcome list \<Rightarrow> outcome" where
  "joinOutcomes L rs = (case List.find (\<lambda>r. \<not> is_Return r) rs of
       Some r \<Rightarrow> r
     | None \<Rightarrow> Return (reduceErrors L (map returned rs)))"

lemma joinOutcomes_Return:
  "\<forall>r\<in>set rs. is_Return r \<Longrightarrow> joinOutcomes L rs = Return (reduceErrors L (map returned rs))"
  by (auto simp: joinOutcomes_def find_None_iff find_Some_iff split: option.splits)

lemma joinOutcomes_is_Return:
  "is_Return (joinOutcomes L rs) \<longleftrightarrow> (\<forall>r\<in>set rs. is_Return r)"
proof (cases "List.find (\<lambda>r. \<not> is_Return r) rs")
  case None
  then have "\<forall>r\<in>set rs. is_Return r" by (auto simp: find_None_iff)
  then show ?thesis by (simp add: joinOutcomes_Return)
next
  case (Some r)
  then have "\<not> is_Return r \<and> r \<in> set rs" by (auto simp: find_Some_iff)
  with Some show ?thesis by (auto simp: joinOutcomes_def)
qed

section \<open>Third-party clients\<close>

type_synonym mclient = ref
type_synonym addr = nat

text \<open>
  A message handler is one of the application, or one a middleware made from another.
\<close>

datatype MessageHandler = AppHandler ref | WrappedHandler ref MessageHandler

text \<open>The settings of a \<^verbatim>\<open>mqtt.ClientOptions\<close> that \<^verbatim>\<open>toClientOptions\<close> makes.\<close>

record mqttClientOptions =
  mqClientID :: string
  mqUsername :: string
  mqPassword :: string
  mqCredentialsProvider :: "ref option"
  mqConnectRetry :: bool
  mqConnectRetryInterval :: int
  mqServers :: "string list"
  mqResumeSubs :: bool
  mqTLSConfig :: "ref option"
  mqAutoReconnect :: bool
  mqCleanSession :: bool
  mqOrder :: bool
  mqKeepAlive :: int
  mqConnectTimeout :: int
  mqMaxReconnectInterval :: int
  mqWriteTimeout :: int
  mqLogLevel :: mqttLogLevel
  mqAckTimeout :: int

datatype event =
    NewMqttClient mclient mqttClientOptions
  | MConnect mclient
  | MDisconnect mclient "64 word"
  | MPublish mclient string byte bool bytes
  | MSubscribe mclient string byte MessageHandler
  | MSubscribeMultiple mclient "(string \<times> byte) list" MessageHandler
  | MUnsubscribe mclient "string list"
  | ClientIDCallback ref string
  | OnConnect ref
  | OnConnectionLost ref goerror
  | OnReconnect ref

text \<open>
  A \<^verbatim>\<open>mqtt.Token\<close> at the call that waits for it: the answer of \<^verbatim>\<open>WaitTimeout\<close>, whether the
  \<^verbatim>\<open>select\<close> of \<^verbatim>\<open>waitForToken\<close> takes the branch of the context (with its \<^verbatim>\<open>ctx.Err()\<close>), and
  \<^verbatim>\<open>Error()\<close>.
\<close>

record token =
  tokWaitTimeout :: "int \<Rightarrow> bool"
  tokCtxDone :: "goerror option"
  tokError :: err

section \<open>The environment\<close>

text \<open>
  Third-party functions (\<^verbatim>\<open>multierror\<close>, \<^verbatim>\<open>xtools/generic\<close>, paho) and the choices of the runtime:
  the order in which a concurrent map makes its calls, the iteration order of a map, the
  number \<^verbatim>\<open>rand.Intn\<close> draws.
\<close>

record ext =
  errs :: errlib
  set_Has :: "string set \<Rightarrow> string \<Rightarrow> bool"
  set_Add :: "string set \<Rightarrow> string \<Rightarrow> string set"
  set_Delete :: "string set \<Rightarrow> string list \<Rightarrow> string set"
  set_Values :: "string set \<Rightarrow> string list"
  concOrder :: "nat \<Rightarrow> nat list"
  mapOrder :: "nat \<Rightarrow> nat list"
  valuesOrder :: "string list \<Rightarrow> string list"
  rangeOrder :: "string list \<Rightarrow> string list"
  rand_Intn :: "nat \<Rightarrow> nat"
  newClientFunc :: "event list \<Rightarrow> mqttClientOptions \<Rightarrow> mclient"
  newClientOptions :: mqttClientOptions
  respond :: "event list \<Rightarrow> token"
  isConnectionOpen :: "event list \<Rightarrow> mclient \<Rightarrow> bool"
  readerClientID :: "mclient \<Rightarrow> string option"
  os_Hostname :: "string option"
  fetchCredentials :: "event list \<Rightarrow> ref \<Rightarrow> goerror + Credential"
  retryFuel :: nat

text \<open>What the code relies on: the documented behaviour of these functions.\<close>

definition setlib_ok :: "ext \<Rightarrow> bool" where
  "setlib_ok E \<longleftrightarrow>
     (\<forall>S x. set_Has E S x = (x \<in> S)) \<and> (\<forall>S x. set_Add E S x = insert x S) \<and>
     (\<forall>S xs. set_Delete E S xs = S - set xs) \<and>
     (\<forall>S. finite S \<longrightarrow> distinct (set_Values E S) \<and> set (set_Values E S) = S)"

definition order_ok :: "ext \<Rightarrow> bool" where
  "order_ok E \<longleftrightarrow> perm_order (concOrder E) \<and> perm_order (mapOrder E) \<and>
     perm_list (valuesOrder E) \<and> perm_list (rangeOrder E) \<and>
     (\<forall>n>0. rand_Intn E n < n)"

definition ext_ok :: "ext \<Rightarrow> bool" where
  "ext_ok E \<longleftrightarrow> errlib_ok (errs E) \<and> setlib_ok E \<and> order_ok E \<and>
     (\<forall>tr. solid (tokError (respond E tr)) \<and> solid (tokCtxDone (respond E tr)))"

lemma ext_okD [simp]:
  assumes "ext_ok E"
  shows "errlib_ok (errs E)" "perm_order (concOrder E)" "perm_order (mapOrder E)"
    "perm_list (valuesOrder E)" "perm_list (rangeOrder E)" "0 < n \<Longrightarrow> rand_Intn E n < n"
    "set_Has E S x = (x \<in> S)" "set_Add E S x = insert x S" "set_Delete E S xs = S - set xs"
    "solid (tokError (respond E tr))" "solid (tokCtxDone (respond E tr))"
    "finite S \<Longrightarrow> set (set_Values E S) = S" "finite S \<Longrightarrow> distinct (set_Values E S)"
  using assms by (auto simp: ext_ok_def setlib_ok_def order_ok_def)

section \<open>The client\<close>

record internalState =
  subsCalled :: "string set"
  isClient :: mclient

record subscriptionMeta =
  smTopic :: string
  smOptions :: "Option list"
  smCallback :: MessageHandler

text \<open>Goroutines that were started and have not run yet.\<close>

datatype goroutine =
    GoDisconnectAll "mclient list"
  | GoDisconnectOld mclient
  | GoWatchAddressUpdates
  | GoInfoEmitter

text \<open>
  \<^verbatim>\<open>stopInfoEmitter\<close> is \<^verbatim>\<open>nil\<close>, or a cancel function with whether it has been called.
\<close>

record 'v client =
  options :: "'v clientOptions"
  subscriptions :: "(string, subscriptionMeta) gomap"
  mqttClient :: "mclient option"
  mqttClients :: "(string, addr) gomap"
  orderedClients :: "addr list"
  rrCounter :: "64 word"
  multiConnRevision :: "64 word"
  stopInfoEmitter :: "bool option"
  states :: "addr \<Rightarrow> internalState"
  nextAddr :: addr
  goroutines :: "goroutine list"
  trace :: "event list"

definition clientIDMapper :: "ext \<Rightarrow> mclient option \<Rightarrow> string" where
  "clientIDMapper E cc = (case cc of
       None \<Rightarrow> ''<nil-client>''
     | Some m \<Rightarrow> (case readerClientID E m of None \<Rightarrow> ''<nil-options>'' | Some i \<Rightarrow> i))"

text \<open>Calling \<^verbatim>\<open>invokeClientIDCallback(ctx, id)\<close>.\<close>

definition callClientIDCallback ::
  "gocontext \<Rightarrow> string \<Rightarrow> ('v, 'x) client_scheme \<Rightarrow> ('v, 'x) client_scheme" where
  "callClientIDCallback ctx i c = (case invokeClientIDCallback ctx i of
       None \<Rightarrow> c
     | Some (cb, arg) \<Rightarrow> c\<lparr>trace := trace c @ [ClientIDCallback cb arg]\<rparr>)"

text \<open>A method call on an interface value that may be \<^verbatim>\<open>nil\<close>.\<close>

definition onClient :: "mclient option \<Rightarrow> (mclient \<Rightarrow> 's act) \<Rightarrow> 's act" where
  "onClient cc g s = (case cc of None \<Rightarrow> (Panic NilDereference, s) | Some m \<Rightarrow> g m s)"

section \<open>Dispatch\<close>

datatype 's execOpt =
    ExecOptConst int
  | ExecOptWithState "(mclient option \<Rightarrow> 's act) \<Rightarrow> addr \<Rightarrow> 's act"
  | ExecOptOther

definition execAll :: "'s execOpt" where "execAll = ExecOptConst 0"
definition execOneRandom :: "'s execOpt" where "execOneRandom = ExecOptConst 1"
definition execOneRoundRobin :: "'s execOpt" where "execOneRoundRobin = ExecOptConst 2"

lemmas execOpt_defs = execAll_def execOneRandom_def execOneRoundRobin_def

text \<open>The value returned and the counter afterwards.\<close>

definition atomicCounter_next :: "64 word \<Rightarrow> 64 word \<times> 64 word" where
  "atomicCounter_next value = (value, value + 1)"

text \<open>Indexing a slice with an \<^verbatim>\<open>int\<close>.\<close>

definition sliceIndex :: "'a list \<Rightarrow> int \<Rightarrow> 'a option" where
  "sliceIndex xs i = (if 0 \<le> i \<and> i < int (length xs) then Some (xs ! nat i) else None)"

text \<open>\<^verbatim>\<open>slice.Reduce(slice.MapConcurrent(xs, f), accumulateErrors)\<close>.\<close>

definition fanOut :: "ext \<Rightarrow> ('a \<Rightarrow> 's act) \<Rightarrow> 'a list \<Rightarrow> 's act" where
  "fanOut E f xs s =
     (let (rs, s') = sliceCalls (concOrder E) (Return None) f xs s
      in (joinOutcomes (errs E) rs, s'))"

text \<open>The call on the one connection that was chosen.\<close>

definition execOne ::
  "ext \<Rightarrow> gocontext \<Rightarrow> (mclient option \<Rightarrow> ('v, 'x) client_scheme act) \<Rightarrow> addr \<Rightarrow>
   ('v, 'x) client_scheme act" where
  "execOne E ctx f a c =
     (let cc = isClient (states c a)
      in f (Some cc) (callClientIDCallback ctx (clientIDMapper E (Some cc)) c))"

text \<open>
  \<^verbatim>\<open>p.Intn(len(ccs))\<close> panics on an empty slice; \<^verbatim>\<open>int(c.rrCounter.next()) % len(ccs)\<close> reads the
  counter as a signed integer, divides truncating, and panics when \<^verbatim>\<open>len(ccs)\<close> is zero.
\<close>

definition execMultiConn ::
  "ext \<Rightarrow> gocontext \<Rightarrow> (mclient option \<Rightarrow> ('v, 'x) client_scheme act) \<Rightarrow>
   ('v, 'x) client_scheme execOpt \<Rightarrow> ('v, 'x) client_scheme act" where
  "execMultiConn E ctx f eo c =
     (case eo of
        ExecOptConst k \<Rightarrow>
          (if k = 1 then
             (let ccs = mapValues (valuesOrder E) (mqttClients c)
              in if length ccs = 0 then (Panic IntnArgument, c)
                 else case sliceIndex ccs (int (rand_Intn E (length ccs))) of
                        None \<Rightarrow> (Panic IndexOutOfRange, c)
                      | Some a \<Rightarrow> execOne E ctx f a c)
           else if k = 2 then
             (let ccs = orderedClients c;
                  (n, v) = atomicCounter_next (rrCounter c);
                  c' = c\<lparr>rrCounter := v\<rparr>
              in if length ccs = 0 then (Panic DivideByZero, c')
                 else case sliceIndex ccs (sint n smod int (length ccs)) of
                        None \<Rightarrow> (Panic IndexOutOfRange, c')
                      | Some a \<Rightarrow> execOne E ctx f a c')
           else
             fanOut E (\<lambda>a c. f (Some (isClient (states c a))) c)
               (mapValues (valuesOrder E) (mqttClients c)) c)
      | ExecOptWithState g \<Rightarrow> fanOut E (g f) (mapValues (valuesOrder E) (mqttClients c)) c
      | ExecOptOther \<Rightarrow> (Return (Some errInvalidExecOpt), c))"

definition execute ::
  "ext \<Rightarrow> gocontext \<Rightarrow> (mclient option \<Rightarrow> ('v, 'x) client_scheme act) \<Rightarrow>
   ('v, 'x) client_scheme execOpt \<Rightarrow> ('v, 'x) client_scheme act" where
  "execute E ctx f eo c =
     (if mqttClient c = None \<and> length (mqttClients c) = 0
      then (Return (Some ErrClientNotInitialized), c)
      else if poolEnabled (options c) \<or> multiConnectionMode (options c)
      then execMultiConn E ctx f eo c
      else f (mqttClient c)
             (callClientIDCallback ctx (clientIDMapper E (mqttClient c)) c))"

section \<open>Waiting for a token\<close>

definition waitForToken ::
  "'v clientOptions \<Rightarrow> gocontext \<Rightarrow> token \<Rightarrow> goerror \<Rightarrow> err" where
  "waitForToken o1 ctx t timeoutErr =
     (if hasDeadline ctx
      then (case tokCtxDone t of Some e \<Rightarrow> Some e | None \<Rightarrow> tokError t)
      else if \<not> tokWaitTimeout t (writeTimeout o1) then Some timeoutErr
      else None)"

definition handleToken ::
  "'v clientOptions \<Rightarrow> gocontext \<Rightarrow> token \<Rightarrow> goerror \<Rightarrow> err" where
  "handleToken o1 ctx t timeoutErr = (case waitForToken o1 ctx t timeoutErr of
       Some e \<Rightarrow> Some e
     | None \<Rightarrow> (case tokError t of Some e \<Rightarrow> Some e | None \<Rightarrow> None))"

text \<open>The call \<open>ev\<close> on a third-party client: it is recorded, and answered with a token.\<close>

definition pahoCall ::
  "ext \<Rightarrow> event \<Rightarrow> ('v, 'x) client_scheme \<Rightarrow> token \<times> ('v, 'x) client_scheme" where
  "pahoCall E ev c = (let tr = trace c @ [ev] in (respond E tr, c\<lparr>trace := tr\<rparr>))"

text \<open>\<^verbatim>\<open>c.handleToken(ctx, cc.M(...), timeoutErr)\<close> for the call \<open>mk\<close> of a method \<^verbatim>\<open>M\<close>.\<close>

definition pahoRequest ::
  "ext \<Rightarrow> gocontext \<Rightarrow> goerror \<Rightarrow> (mclient \<Rightarrow> event) \<Rightarrow> mclient option \<Rightarrow>
   ('v, 'x) client_scheme act" where
  "pahoRequest E ctx timeoutErr mk cc = onClient cc (\<lambda>m c.
     let (t, c') = pahoCall E (mk m) c
     in (Return (handleToken (options c') ctx t timeoutErr), c'))"

section \<open>Lemmas on dispatch\<close>

lemma handleToken_None_iff:
  "handleToken o1 ctx t te = None \<longleftrightarrow>
     tokError t = None \<and> (if hasDeadline ctx then tokCtxDone t = None
                          else tokWaitTimeout t (writeTimeout o1))"
  by (auto simp: handleToken_def waitForToken_def split: option.splits)

lemma solid_handleToken:
  "solid (tokError t) \<Longrightarrow> solid (tokCtxDone t) \<Longrightarrow> solid (Some te) \<Longrightarrow>
     solid (handleToken o1 ctx t te)"
  by (auto simp: handleToken_def waitForToken_def split: option.splits)

lemma pahoRequest_Some [simp]:
  "pahoRequest E ctx te mk (Some m) c =
     (Return (handleToken (options c) ctx (respond E (trace c @ [mk m])) te),
      c\<lparr>trace := trace c @ [mk m]\<rparr>)"
  by (simp add: pahoRequest_def onClient_def pahoCall_def Let_def)

lemma pahoRequest_None [simp]:
  "pahoRequest E ctx te mk None c = (Panic NilDereference, c)"
  by (simp add: pahoRequest_def onClient_def)

lemma sliceIndex_Some_iff:
  "sliceIndex xs i = Some a \<longleftrightarrow> 0 \<le> i \<and> i < int (length xs) \<and> a = xs ! nat i"
  by (auto simp: sliceIndex_def)

lemma sliceIndex_nat: "n < length xs \<Longrightarrow> sliceIndex xs (int n) = Some (xs ! n)"
  by (simp add: sliceIndex_def)

text \<open>
  The index of the round-robin choice: in range while the counter, read as a signed
  integer, is not negative.
\<close>

lemma rr_index:
  fixes n :: "64 word"
  assumes "unat n < 2 ^ 63" and "xs \<noteq> []"
  shows "sliceIndex xs (sint n smod int (length xs)) = Some (xs ! (unat n mod length xs))"
proof -
  have "int (unat n) < int (2 ^ 63)" using assms(1) by (rule of_nat_less_iff [THEN iffD2])
  then have "signed_take_bit 63 (uint n) = uint n"
    by (intro signed_take_bit_int_eq_self) (simp_all add: order_trans [OF _ uint_ge_0])
  then have "sint n = int (unat n)" by (simp add: sint_uint)
  then have "sint n smod int (length xs) = int (unat n mod length xs)"
    by (simp only: smod_int_of_nat)
  with assms(2) show ?thesis by (simp add: sliceIndex_nat)
qed

text \<open>What \<open>fanOut\<close> returns when no call panics.\<close>

lemma fanOut_aggregate:
  assumes "ext_ok E"
    and "\<And>x s. x \<in> set xs \<Longrightarrow> I s \<Longrightarrow> I (snd (f x s)) \<and> is_Return (fst (f x s))" and "I s"
  shows "fst (fanOut E f xs s) =
     Return (aggregate (map returned (fst (sliceCalls (concOrder E) (Return None) f xs s))))"
proof -
  have "\<forall>r\<in>set (fst (sliceCalls (concOrder E) (Return None) f xs s)). is_Return r"
    by (rule sliceCalls_all [where I = I]) (use assms in auto)
  with assms(1) show ?thesis
    by (simp add: fanOut_def joinOutcomes_Return reduceErrors_aggregate split: prod.splits)
qed

lemma snd_fanOut: "snd (fanOut E f xs s) = snd (sliceCalls (concOrder E) (Return None) f xs s)"
  by (simp add: fanOut_def split: prod.splits)

lemma fanOut_Nil [simp]: "ext_ok E \<Longrightarrow> fanOut E f [] s = (Return None, s)"
  by (simp add: fanOut_def joinOutcomes_Return reduceErrors_aggregate)

end
