(* ===== verification/PubSub.thy ===== *)
theory PubSub
  imports Client
begin

text \<open>
  Publishing, subscribing and unsubscribing (\<^verbatim>\<open>client_publish.go\<close>, \<^verbatim>\<open>client_subscribe.go\<close>,
  \<^verbatim>\<open>client_unsubscribe.go\<close>, \<^verbatim>\<open>client_stop.go\<close>, and the handler interfaces of \<^verbatim>\<open>publisher.go\<close>,
  \<^verbatim>\<open>subscriber.go\<close>, \<^verbatim>\<open>unsubscriber.go\<close>, \<^verbatim>\<open>stopper.go\<close>): the handlers at the end of the middleware
  chains, the chains themselves, and the registry of subscriptions.
\<close>

section \<open>Handlers and middlewares\<close>

text \<open>
  A handler gets the environment of the call. The handler half of the \<^verbatim>\<open>Client\<close> structure is
  a record of its own, so that handlers can be functions on the state half.
\<close>

type_synonym ('v, 's) Publisher = "ext \<Rightarrow> gocontext \<Rightarrow> string \<Rightarrow> 'v \<Rightarrow> Option list \<Rightarrow> 's act"
type_synonym 's Unsubscriber = "ext \<Rightarrow> gocontext \<Rightarrow> string list \<Rightarrow> 's act"
type_synonym 's Stopper = "ext \<Rightarrow> 's act"

record 's Subscriber =
  subscribe :: "ext \<Rightarrow> gocontext \<Rightarrow> string \<Rightarrow> MessageHandler \<Rightarrow> Option list \<Rightarrow> 's act"
  subscribeMultiple ::
    "ext \<Rightarrow> gocontext \<Rightarrow> (string, QOSLevel) gomap \<Rightarrow> MessageHandler \<Rightarrow> 's act"

record ('v, 's) handlers =
  publisher :: "('v, 's) Publisher"
  subscriber :: "'s Subscriber"
  unsubscriber :: "'s Unsubscriber"
  stopHandler :: "'s Stopper"
  pMiddlewares :: "(('v, 's) Publisher \<Rightarrow> ('v, 's) Publisher) list"
  sMiddlewares :: "('s Subscriber \<Rightarrow> 's Subscriber) list"
  usMiddlewares :: "('s Unsubscriber \<Rightarrow> 's Unsubscriber) list"
  stopMiddleware :: "('s Stopper \<Rightarrow> 's Stopper) option"

text \<open>
  \<^verbatim>\<open>for i := len(ms) - 1; i >= 0; i-- { h = ms[i].Middleware(h) }\<close>.
\<close>

definition buildChain :: "('h \<Rightarrow> 'h) list \<Rightarrow> 'h \<Rightarrow> 'h" where
  "buildChain ms h = fold (\<lambda>m. m) (rev ms) h"

section \<open>Publish\<close>

definition publishHandler :: "('v, ('v, 'x) client_scheme) Publisher" where
  "publishHandler E ctx topic message opts c =
     (case newEncoder (options c) ctx message [] of
        (Some e, _) \<Rightarrow> (Return (Some e), c)
      | (None, buf) \<Rightarrow>
          (let o1 = composeOptions opts
           in execute E ctx
                (pahoRequest E ctx ErrPublishTimeout
                   (\<lambda>m. MPublish m topic (qos o1) (retained o1) buf))
                execOneRoundRobin c))"

definition Publish ::
  "('v, ('v, 'x) client_scheme) handlers \<Rightarrow> ('v, ('v, 'x) client_scheme) Publisher" where
  "Publish H E ctx topic message opts c = publisher H E ctx topic message opts c"

definition UsePublisherMiddleware ::
  "(('v, ('v, 'x) client_scheme) Publisher \<Rightarrow> ('v, ('v, 'x) client_scheme) Publisher) list \<Rightarrow>
   ('v, ('v, 'x) client_scheme) handlers \<Rightarrow> ('v, ('v, 'x) client_scheme) handlers" where
  "UsePublisherMiddleware mwf H =
     (let ms = pMiddlewares H @ mwf
      in H\<lparr>pMiddlewares := ms, publisher := buildChain ms publishHandler\<rparr>)"

section \<open>Subscribe\<close>

definition updState ::
  "addr \<Rightarrow> (internalState \<Rightarrow> internalState) \<Rightarrow> ('v, 'x) client_scheme \<Rightarrow> ('v, 'x) client_scheme" where
  "updState a g c = c\<lparr>states := (states c)(a := g (states c a))\<rparr>"

definition onceOn ::
  "ext \<Rightarrow> string \<Rightarrow> (mclient option \<Rightarrow> ('v, 'x) client_scheme act) \<Rightarrow> addr \<Rightarrow>
   ('v, 'x) client_scheme act" where
  "onceOn E topic f a c =
     (if set_Has E (subsCalled (states c a)) topic then (Return None, c)
      else case f (Some (isClient (states c a))) c of
        (Return None, c') \<Rightarrow>
          (Return None, updState a (\<lambda>s. s\<lparr>subsCalled := set_Add E (subsCalled s) topic\<rparr>) c')
      | r \<Rightarrow> r)"

definition subscribeOnlyOnce :: "ext \<Rightarrow> string \<Rightarrow> ('v, 'x) client_scheme execOpt" where
  "subscribeOnlyOnce E topic = ExecOptWithState (onceOn E topic)"

definition filterSubs ::
  "ext \<Rightarrow> (string, QOSLevel) gomap \<Rightarrow> (string \<Rightarrow> bool) \<Rightarrow>
   (string, byte) gomap \<times> (string, byte) gomap" where
  "filterSubs E topicsWithQos predicate =
     fold (\<lambda>(topic, qosLevel) (sharedSubs, normalSubs).
             if predicate topic then (AList.update topic qosLevel sharedSubs, normalSubs)
             else (sharedSubs, AList.update topic qosLevel normalSubs))
       (mapEntries (rangeOrder E) topicsWithQos) ([], [])"

definition routeFilters :: "ext \<Rightarrow> (string, QOSLevel) gomap \<Rightarrow> (string, byte) gomap" where
  "routeFilters E topicsWithQos =
     fold (\<lambda>(topic, q). AList.update topic q) (mapEntries (rangeOrder E) topicsWithQos) []"

definition subscribeFunc ::
  "ext \<Rightarrow> gocontext \<Rightarrow> string \<Rightarrow> MessageHandler \<Rightarrow> Option list \<Rightarrow> ('v, 'x) client_scheme act" where
  "subscribeFunc E ctx topic callback opts c =
     (let o1 = composeOptions opts;
          eo = (if sharedSubscriptionPredicate (options c) topic then subscribeOnlyOnce E topic
                else execOneRandom)
      in execute E ctx
           (pahoRequest E ctx ErrSubscribeTimeout (\<lambda>m. MSubscribe m topic (qos o1) callback))
           eo c)"

definition subscribeMultipleFunc ::
  "ext \<Rightarrow> gocontext \<Rightarrow> (string, QOSLevel) gomap \<Rightarrow> MessageHandler \<Rightarrow>
   ('v, 'x) client_scheme act" where
  "subscribeMultipleFunc E ctx topicsWithQos callback c =
     (let (sharedSubs, normalSubs) =
            filterSubs E topicsWithQos (sharedSubscriptionPredicate (options c));
          request = (\<lambda>subs. pahoRequest E ctx ErrSubscribeMultipleTimeout
                       (\<lambda>m. MSubscribeMultiple m subs callback));
          execs =
            (if length sharedSubs > 0
             then [\<lambda>c. execute E ctx (request sharedSubs) execAll c] else []) @
            (if length normalSubs > 0
             then [\<lambda>c. execute E ctx (request normalSubs) execOneRandom c] else [])
      in fanOut E (\<lambda>f. f) execs c)"

definition subscriberFuncs :: "('v, 'x) client_scheme Subscriber" where
  "subscriberFuncs = \<lparr>subscribe = subscribeFunc, subscribeMultiple = subscribeMultipleFunc\<rparr>"

definition Subscribe ::
  "('v, ('v, 'x) client_scheme) handlers \<Rightarrow> ext \<Rightarrow> gocontext \<Rightarrow> string \<Rightarrow> MessageHandler \<Rightarrow>
   Option list \<Rightarrow> ('v, 'x) client_scheme act" where
  "Subscribe H E ctx topic callback opts c =
     (case subscribe (subscriber H) E ctx topic callback opts c of
        (Return None, c') \<Rightarrow>
          (Return None, c'\<lparr>subscriptions := AList.update topic
             \<lparr>smTopic = topic, smOptions = opts, smCallback = callback\<rparr> (subscriptions c')\<rparr>)
      | r \<Rightarrow> r)"

definition SubscribeMultiple ::
  "('v, ('v, 'x) client_scheme) handlers \<Rightarrow> ext \<Rightarrow> gocontext \<Rightarrow> (string, QOSLevel) gomap \<Rightarrow>
   MessageHandler \<Rightarrow> ('v, 'x) client_scheme act" where
  "SubscribeMultiple H E ctx topicsWithQos callback c =
     (case subscribeMultiple (subscriber H) E ctx topicsWithQos callback c of
        (Return None, c') \<Rightarrow>
          (Return None, c'\<lparr>subscriptions :=
             fold (\<lambda>(topic, q). AList.update topic
                     \<lparr>smTopic = topic, smOptions = [QOSOption q], smCallback = callback\<rparr>)
               (mapEntries (rangeOrder E) topicsWithQos) (subscriptions c')\<rparr>)
      | r \<Rightarrow> r)"

definition UseSubscriberMiddleware ::
  "(('v, 'x) client_scheme Subscriber \<Rightarrow> ('v, 'x) client_scheme Subscriber) list \<Rightarrow>
   ('v, ('v, 'x) client_scheme) handlers \<Rightarrow> ('v, ('v, 'x) client_scheme) handlers" where
  "UseSubscriberMiddleware mwf H =
     (let ms = sMiddlewares H @ mwf
      in H\<lparr>sMiddlewares := ms, subscriber := buildChain ms subscriberFuncs\<rparr>)"

section \<open>Unsubscribe\<close>

definition removeOn ::
  "ext \<Rightarrow> string list \<Rightarrow> (mclient option \<Rightarrow> ('v, 'x) client_scheme act) \<Rightarrow> addr \<Rightarrow>
   ('v, 'x) client_scheme act" where
  "removeOn E topics f a c =
     (case f (Some (isClient (states c a))) c of
        (Return None, c') \<Rightarrow>
          (Return None, updState a (\<lambda>s. s\<lparr>subsCalled := set_Delete E (subsCalled s) topics\<rparr>) c')
      | r \<Rightarrow> r)"

definition removeSubsFromState :: "ext \<Rightarrow> string list \<Rightarrow> ('v, 'x) client_scheme execOpt" where
  "removeSubsFromState E topics = ExecOptWithState (removeOn E topics)"

definition unsubscriberHandler :: "('v, 'x) client_scheme Unsubscriber" where
  "unsubscriberHandler E ctx topics c =
     execute E ctx (pahoRequest E ctx ErrUnsubscribeTimeout (\<lambda>m. MUnsubscribe m topics))
       (removeSubsFromState E topics) c"

definition Unsubscribe ::
  "('v, ('v, 'x) client_scheme) handlers \<Rightarrow> ext \<Rightarrow> gocontext \<Rightarrow> string list \<Rightarrow>
   ('v, 'x) client_scheme act" where
  "Unsubscribe H E ctx topics c =
     (case unsubscriber H E ctx topics c of
        (Return None, c') \<Rightarrow>
          (Return None, c'\<lparr>subscriptions := fold AList.delete topics (subscriptions c')\<rparr>)
      | r \<Rightarrow> r)"

definition UseUnsubscriberMiddleware ::
  "(('v, 'x) client_scheme Unsubscriber \<Rightarrow> ('v, 'x) client_scheme Unsubscriber) list \<Rightarrow>
   ('v, ('v, 'x) client_scheme) handlers \<Rightarrow> ('v, ('v, 'x) client_scheme) handlers" where
  "UseUnsubscriberMiddleware mwf H =
     (let ms = usMiddlewares H @ mwf
      in H\<lparr>usMiddlewares := ms, unsubscriber := buildChain ms unsubscriberHandler\<rparr>)"

section \<open>Delivery of a message\<close>

record mqttMessage =
  mmPayload :: bytes
  mmMessageID :: "16 word"
  mmTopic :: string
  mmDuplicate :: bool
  mmRetained :: bool
  mmQos :: byte

text \<open>The context and the message the callback is called with.\<close>

definition callbackWrapper ::
  "ext \<Rightarrow> 'v clientOptions \<Rightarrow> mclient option \<Rightarrow> mqttMessage \<Rightarrow> gocontext \<times> 'v Message" where
  "callbackWrapper E o1 cc m =
     (let ctx = withClientID context_Background (clientIDMapper E cc);
          msg = NewMessageWithDecoder (newDecoder o1 ctx (bytes_NewReader (mmPayload m)))
      in (ctx, msg\<lparr>ID := int (unat (mmMessageID m)), Topic := mmTopic m,
                   Duplicate := mmDuplicate m, RetainedFlag := mmRetained m,
                   QoS := mmQos m\<rparr>))"

section \<open>Middleware chains\<close>

text \<open>
  The interface of the three chains: a list of middlewares, extended by \<open>use\<close>, and the
  handler that results. Its client is the order in which a call passes the middlewares.
\<close>

locale middleware_chain =
  fixes use :: "('h \<Rightarrow> 'h) list \<Rightarrow> 's \<Rightarrow> 's"
    and mws :: "'s \<Rightarrow> ('h \<Rightarrow> 'h) list"
    and handler :: "'s \<Rightarrow> 'h"
    and base :: 'h
  assumes mws_use: "mws (use ms s) = mws s @ ms"
    and handler_use: "handler (use ms s) = buildChain (mws s @ ms) base"
begin

lemma mws_uses: "mws (fold use mss s) = mws s @ concat mss"
  by (induction mss arbitrary: s) (auto simp: mws_use)

lemma handler_uses:
  assumes "mss \<noteq> []"
  shows "handler (fold use mss s) = foldr (\<lambda>m. m) (mws s @ concat mss) base"
proof -
  from assms obtain mss' ms where "mss = mss' @ [ms]" by (metis rev_exhaust)
  then show ?thesis
    by (simp add: handler_use mws_uses buildChain_def foldr_conv_fold)
qed

end

interpretation pmw: middleware_chain UsePublisherMiddleware pMiddlewares publisher publishHandler
  by unfold_locales (simp_all add: UsePublisherMiddleware_def Let_def)

interpretation smw: middleware_chain UseSubscriberMiddleware sMiddlewares subscriber subscriberFuncs
  by unfold_locales (simp_all add: UseSubscriberMiddleware_def Let_def)

interpretation usmw:
  middleware_chain UseUnsubscriberMiddleware usMiddlewares unsubscriber unsubscriberHandler
  by unfold_locales (simp_all add: UseUnsubscriberMiddleware_def Let_def)

end
