(* ===== verification/Fanout.thy ===== *)
theory Fanout
  imports PubSub
begin

text \<open>
  The calls an operation makes on every connection. One such call reads the state of its
  connection, may skip it, makes one request on its client, and on success updates the
  state of that connection only; this is the interface \<open>connection_call\<close>, provided by
  shared subscriptions, unsubscriptions and plain requests. Its client is the effect of the
  whole fan-out: which requests are made, what each connection's state is afterwards, and
  which error is returned.
\<close>

section \<open>Operations that only touch subscription sets and the trace\<close>

definition onlySubs :: "('v, 'x) client_scheme \<Rightarrow> ('v, 'x) client_scheme \<Rightarrow> bool" where
  "onlySubs c c' \<longleftrightarrow> c' = c\<lparr>trace := trace c', states := states c'\<rparr> \<and>
     (\<forall>a. isClient (states c' a) = isClient (states c a))"

lemma onlySubs_refl [simp]: "onlySubs c c"
  by (simp add: onlySubs_def)

lemma onlySubs_trans: "onlySubs c d \<Longrightarrow> onlySubs d e \<Longrightarrow> onlySubs c e"
  by (cases c; cases d; cases e) (auto simp: onlySubs_def)

lemma onlySubs_trace [simp]: "onlySubs c (c\<lparr>trace := tr\<rparr>)"
  by (simp add: onlySubs_def)

lemma onlySubs_updState:
  "(\<And>s. isClient (g s) = isClient s) \<Longrightarrow> onlySubs c (updState a g (c\<lparr>trace := tr\<rparr>))"
  by (auto simp: onlySubs_def updState_def)

lemma onlySubs_fields:
  assumes "onlySubs c c'"
  shows "options c' = options c" "subscriptions c' = subscriptions c"
    "mqttClient c' = mqttClient c" "mqttClients c' = mqttClients c"
    "orderedClients c' = orderedClients c" "rrCounter c' = rrCounter c"
    "multiConnRevision c' = multiConnRevision c" "nextAddr c' = nextAddr c"
    "goroutines c' = goroutines c" "isClient (states c' a) = isClient (states c a)"
  using assms by (cases c; cases c'; auto simp: onlySubs_def)+

section \<open>One call per connection\<close>

locale connection_call =
  fixes E :: ext
    and wait :: "'v clientOptions \<Rightarrow> token \<Rightarrow> err"
    and te :: goerror
    and mk :: "mclient \<Rightarrow> event"
    and call :: "addr \<Rightarrow> ('v, 'x) client_scheme act"
    and skip :: "internalState \<Rightarrow> bool"
    and upd :: "internalState \<Rightarrow> internalState"
  assumes call_eq: "call a c =
      (if skip (states c a) then (Return None, c)
       else let tr = trace c @ [mk (isClient (states c a))];
                e = wait (options c) (respond E tr)
            in (Return e, if e = None then updState a upd (c\<lparr>trace := tr\<rparr>) else c\<lparr>trace := tr\<rparr>))"
    and upd_client: "isClient (upd s) = isClient s"
    and solid_wait: "solid (Some te) \<Longrightarrow> solid (tokError t) \<Longrightarrow> solid (tokCtxDone t) \<Longrightarrow> solid (wait o1 t)"
begin

definition requests :: "('v, 'x) client_scheme \<Rightarrow> addr list \<Rightarrow> event list" where
  "requests c as = map (\<lambda>a. mk (isClient (states c a))) (filter (\<lambda>a. \<not> skip (states c a)) as)"

text \<open>What a call leaves behind: its result and the state of its connection.\<close>

definition served :: "'v clientOptions \<Rightarrow> internalState \<Rightarrow> outcome \<Rightarrow> internalState \<Rightarrow> bool" where
  "served o1 s r s' \<longleftrightarrow> (\<exists>e. r = Return e \<and>
     (if skip s then e = None else \<exists>tr. e = wait o1 (respond E tr)) \<and>
     s' = (if e = None \<and> \<not> skip s then upd s else s))"

lemma requests_cong:
  "(\<And>a. a \<in> set as \<Longrightarrow> states c' a = states c a) \<Longrightarrow> requests c' as = requests c as"
  by (induction as) (auto simp: requests_def)

lemma call_served:
  obtains e c' where "call a c = (Return e, c')" "onlySubs c c'" "trace c' = trace c @ requests c [a]"
    "\<And>b. b \<noteq> a \<Longrightarrow> states c' b = states c b" "served (options c) (states c a) (Return e) (states c' a)"
proof (cases "skip (states c a)")
  case True
  with that [of None c] show ?thesis by (simp add: call_eq requests_def served_def)
next
  case False
  define tr where "tr = trace c @ [mk (isClient (states c a))]"
  define e where "e = wait (options c) (respond E tr)"
  define c' where "c' = (if e = None then updState a upd (c\<lparr>trace := tr\<rparr>) else c\<lparr>trace := tr\<rparr>)"
  have "call a c = (Return e, c')"
    using False by (simp add: call_eq Let_def tr_def e_def c'_def)
  moreover have "onlySubs c c'"
    by (simp add: c'_def onlySubs_updState upd_client)
  moreover have "trace c' = trace c @ requests c [a]"
    using False by (simp add: c'_def requests_def tr_def updState_def)
  moreover have "states c' a = (if e = None then upd (states c a) else states c a)"
    and "\<And>b. b \<noteq> a \<Longrightarrow> states c' b = states c b"
    by (simp_all add: c'_def updState_def)
  ultimately show ?thesis using that [of e c'] False e_def by (auto simp: served_def)
qed

lemma calls:
  assumes "distinct xs" and "distinct is" and "\<forall>i\<in>set is. i < length xs"
    and "length rs = length xs"
  shows "\<exists>rs' c'. callsInOrder call xs is rs c = (rs', c') \<and> onlySubs c c' \<and>
     length rs' = length xs \<and> trace c' = trace c @ requests c (map ((!) xs) is) \<and>
     (\<forall>a. a \<notin> (!) xs ` set is \<longrightarrow> states c' a = states c a) \<and>
     (\<forall>i. i < length xs \<longrightarrow> i \<notin> set is \<longrightarrow> rs' ! i = rs ! i) \<and>
     (\<forall>i\<in>set is. served (options c) (states c (xs ! i)) (rs' ! i) (states c' (xs ! i)))"
  (is "\<exists>rs' c'. ?P is rs c rs' c'")
  using assms
proof (induction "is" arbitrary: rs c)
  case Nil
  then show ?case by (auto simp: requests_def)
next
  case (Cons i "is")
  let ?a = "xs ! i"
  have notin: "?a \<notin> (!) xs ` set is"
    using Cons.prems by (auto simp: nth_eq_iff_index_eq)
  obtain e c1 where eq: "call ?a c = (Return e, c1)" and os: "onlySubs c c1"
    and tr1: "trace c1 = trace c @ requests c [?a]" and other: "\<And>b. b \<noteq> ?a \<Longrightarrow> states c1 b = states c b"
    and now: "served (options c) (states c ?a) (Return e) (states c1 ?a)" by (rule call_served [of ?a c]) blast
  from Cons.prems Cons.IH [of "rs[i := Return e]" c1] obtain rs' c'
    where IH: "?P is (rs[i := Return e]) c1 rs' c'" by auto
  have same: "states c1 (xs ! j) = states c (xs ! j)" if "j \<in> set is" for j
    using other [of "xs ! j"] notin that by (metis imageI)
  have req: "requests c1 (map ((!) xs) is) = requests c (map ((!) xs) is)"
    by (rule requests_cong) (auto simp: same)
  have "rs' ! i = Return e" and "states c' ?a = states c1 ?a"
    using IH notin Cons.prems by auto
  moreover have "\<forall>j\<in>set is. served (options c) (states c (xs ! j)) (rs' ! j) (states c' (xs ! j))"
    using IH same onlySubs_fields(1) [OF os] by metis
  ultimately have "\<forall>j\<in>set (i # is). served (options c) (states c (xs ! j)) (rs' ! j) (states c' (xs ! j))"
    using now by simp
  moreover have "onlySubs c c'" using os IH onlySubs_trans by blast
  moreover have "trace c' = trace c @ requests c (map ((!) xs) (i # is))"
    using IH tr1 req by (simp add: requests_def)
  moreover have "\<forall>a. a \<notin> (!) xs ` set (i # is) \<longrightarrow> states c' a = states c a"
    using IH other by auto
  ultimately have "?P (i # is) rs c rs' c'" using eq IH by auto
  then show ?case by blast
qed

lemma served_solid:
  "ext_ok E \<Longrightarrow> solid (Some te) \<Longrightarrow> served o1 s r s' \<Longrightarrow> is_Return r \<and> solid (returned r)"
  by (auto simp: served_def solid_wait split: if_splits)

lemma fan:
  assumes ok: "ext_ok E" and xs: "distinct xs" and te: "solid (Some te)"
  shows "\<exists>es c'. fanOut E call xs c = (Return (aggregate es), c') \<and> length es = length xs \<and>
     (\<forall>e\<in>set es. solid e) \<and> onlySubs c c' \<and>
     trace c' = trace c @ requests c (map ((!) xs) (concOrder E (length xs))) \<and>
     (\<forall>a. a \<notin> set xs \<longrightarrow> states c' a = states c a) \<and>
     (\<forall>i<length xs. served (options c) (states c (xs ! i)) (Return (es ! i)) (states c' (xs ! i)))"
proof -
  let ?is = "concOrder E (length xs)"
  have "is": "distinct ?is" "set ?is = {0..<length xs}"
    using ok by (simp_all add: perm_simps)
  obtain rs' c' where run: "callsInOrder call xs ?is (replicate (length xs) (Return None)) c = (rs', c')"
    and os: "onlySubs c c'" and len: "length rs' = length xs"
    and tr: "trace c' = trace c @ requests c (map ((!) xs) ?is)"
    and other: "\<forall>a. a \<notin> (!) xs ` set ?is \<longrightarrow> states c' a = states c a"
    and srv: "\<forall>i\<in>set ?is. served (options c) (states c (xs ! i)) (rs' ! i) (states c' (xs ! i))"
    using calls [of xs ?is "replicate (length xs) (Return None)" c] xs "is" by auto
  have all: "\<forall>r\<in>set rs'. is_Return r \<and> solid (returned r)"
    using served_solid [OF ok te] srv len "is"(2) by (fastforce simp: in_set_conv_nth)
  define es where "es = map returned rs'"
  have rs': "\<And>i. i < length xs \<Longrightarrow> rs' ! i = Return (es ! i)"
    using all len by (simp add: es_def)
  have "fanOut E call xs c = (Return (aggregate es), c')"
    using all ok run
    by (simp add: fanOut_def sliceCalls_def joinOutcomes_Return reduceErrors_aggregate es_def)
  moreover have "\<forall>a. a \<notin> set xs \<longrightarrow> states c' a = states c a"
    using other "is"(2) by (metis atLeastLessThan_iff image_iff nth_mem)
  moreover have "\<forall>i<length xs.
      served (options c) (states c (xs ! i)) (Return (es ! i)) (states c' (xs ! i))"
    using srv rs' "is"(2) by (metis atLeastLessThan_iff zero_le)
  moreover have "length es = length xs" and "\<forall>e\<in>set es. solid e"
    using len all by (auto simp: es_def)
  ultimately show ?thesis using os tr by blast
qed

lemma mset_requests_order:
  assumes "ext_ok E"
  shows "mset (requests c (map ((!) xs) (concOrder E (length xs)))) = mset (requests c xs)"
proof -
  have "mset (map ((!) xs) (concOrder E (length xs))) = image_mset ((!) xs) (mset [0..<length xs])"
    using ext_okD(2) [OF assms] by (simp add: perm_order_def)
  also have "\<dots> = mset xs" by (metis map_nth mset_map)
  finally have "filter_mset (\<lambda>a. \<not> skip (states c a)) (mset (map ((!) xs) (concOrder E (length xs)))) =
      filter_mset (\<lambda>a. \<not> skip (states c a)) (mset xs)" by simp
  then show ?thesis unfolding requests_def mset_map mset_filter [symmetric] by simp
qed

text \<open>The fan-out returns \<^verbatim>\<open>nil\<close> exactly when every request succeeded.\<close>

lemma fan_success:
  assumes ok: "ext_ok E" and xs: "distinct xs" and te: "solid (Some te)"
    and run: "fanOut E call xs c = (Return None, c')" and a: "a \<in> set xs"
  shows "states c' a = (if skip (states c a) then states c a else upd (states c a))"
proof -
  from fan [OF ok xs te, of c, unfolded run] obtain es where
    agg: "None = aggregate es" and len: "length es = length xs" and sol: "\<forall>e\<in>set es. solid e"
    and srv: "\<forall>i<length xs. served (options c) (states c (xs ! i)) (Return (es ! i)) (states c' (xs ! i))"
    by auto
  from agg sol have "\<forall>e\<in>set es. e = None" using aggregate_None_iff by metis
  with len have none: "\<And>i. i < length xs \<Longrightarrow> es ! i = None" by (metis nth_mem)
  from a obtain i where i: "i < length xs" "xs ! i = a" by (auto simp: in_set_conv_nth)
  with srv none have "served (options c) (states c a) (Return None) (states c' a)" by metis
  then show ?thesis by (auto simp: served_def)
qed

end

section \<open>The three kinds of call\<close>

interpretation once: connection_call E "\<lambda>o1 t. handleToken o1 ctx t te" te mk "onceOn E topic (pahoRequest E ctx te mk)"
    "\<lambda>s. set_Has E (subsCalled s) topic"
    "\<lambda>s. s\<lparr>subsCalled := set_Add E (subsCalled s) topic\<rparr>"
  for E ctx te mk topic
  by unfold_locales (auto simp: onceOn_def Let_def solid_handleToken split: option.splits)

interpretation remove: connection_call E "\<lambda>o1 t. handleToken o1 ctx t te" te mk "removeOn E topics (pahoRequest E ctx te mk)"
    "\<lambda>s. False" "\<lambda>s. s\<lparr>subsCalled := set_Delete E (subsCalled s) topics\<rparr>"
  for E ctx te mk topics
  by unfold_locales (auto simp: removeOn_def Let_def solid_handleToken split: option.splits)

interpretation plain: connection_call E "\<lambda>o1 t. handleToken o1 ctx t te" te mk
    "\<lambda>a c. pahoRequest E ctx te mk (Some (isClient (states c a))) c" "\<lambda>s. False" "\<lambda>s. s"
  for E ctx te mk
  by unfold_locales (simp_all add: updState_def Let_def solid_handleToken)

end
