(* ===== verification/Connect.thy ===== *)
theory Connect
  imports Fanout
begin

text \<open>
  The life of the connections (\<^verbatim>\<open>client.go\<close>, \<^verbatim>\<open>client_pool.go\<close>, \<^verbatim>\<open>client_resolver.go\<close>,
  \<^verbatim>\<open>client_stop.go\<close>): the paho options of a connection, construction of a client with one
  connection or a pool, connecting, stopping, and following the address updates of a
  resolver, with the handlers paho calls on connection events.
\<close>

section \<open>Options of a connection\<close>

datatype TCPAddress = TCPAddress (Host: string) (Port: "16 word")

definition TCPAddress_String :: "TCPAddress \<Rightarrow> string" where
  "TCPAddress_String t = TCPAddress_text (Host t) (Port t)"

definition formatAddressWithProtocol :: "'v clientOptions \<Rightarrow> string" where
  "formatAddressWithProtocol o1 =
     (if tlsConfig o1 \<noteq> None then ''tls://'' @ brokerAddress o1
      else ''tcp://'' @ brokerAddress o1)"

text \<open>The credentials provider paho calls on every connection attempt.\<close>

definition credentialsRefresher ::
  "ext \<Rightarrow> event list \<Rightarrow> ref \<Rightarrow> string \<times> string" where
  "credentialsRefresher E tr fetcher = (case fetchCredentials E tr fetcher of
       Inl _ \<Rightarrow> (''<unknown>'', [])
     | Inr cr \<Rightarrow> (credUsername cr, credPassword cr))"

definition refreshCredentialsWithFetcher ::
  "ext \<Rightarrow> event list \<Rightarrow> ref \<Rightarrow> mqttClientOptions \<Rightarrow> mqttClientOptions" where
  "refreshCredentialsWithFetcher E tr fetcher opts = (case fetchCredentials E tr fetcher of
       Inl _ \<Rightarrow> opts
     | Inr cr \<Rightarrow> opts\<lparr>mqUsername := credUsername cr, mqPassword := credPassword cr\<rparr>)"

definition setCredentials ::
  "ext \<Rightarrow> event list \<Rightarrow> 'v clientOptions \<Rightarrow> mqttClientOptions \<Rightarrow> mqttClientOptions" where
  "setCredentials E tr o1 opts = (case credentialFetcher o1 of
       Some f \<Rightarrow> (refreshCredentialsWithFetcher E tr f opts)\<lparr>mqCredentialsProvider := Some f\<rparr>
     | None \<Rightarrow> opts\<lparr>mqUsername := username o1, mqPassword := password o1\<rparr>)"

definition toClientOptions ::
  "ext \<Rightarrow> event list \<Rightarrow> 'v clientOptions \<Rightarrow> string \<Rightarrow> mqttClientOptions" where
  "toClientOptions E tr o1 idSuffix =
     (let opts = newClientOptions E;
          opts = opts\<lparr>mqClientID := (case os_Hostname E of
                     Some h \<Rightarrow> (if clientID o1 = [] then h else clientID o1) @ idSuffix
                   | None \<Rightarrow> clientID o1 @ idSuffix)\<rparr>;
          opts = setCredentials E tr o1 opts;
          opts = (if enabled (retryPolicy o1)
                  then opts\<lparr>mqConnectRetry := True,
                            mqConnectRetryInterval := interval (retryPolicy o1)\<rparr>
                  else opts)
      in opts\<lparr>mqServers := mqServers opts @ [formatAddressWithProtocol o1],
              mqResumeSubs := resumeSubscriptionsOpt o1, mqTLSConfig := tlsConfig o1,
              mqAutoReconnect := autoReconnect o1, mqCleanSession := cleanSession o1,
              mqOrder := maintainOrder o1, mqKeepAlive := keepAlive o1,
              mqConnectTimeout := connectTimeout o1,
              mqMaxReconnectInterval := maxReconnectInterval o1,
              mqWriteTimeout := writeTimeout o1, mqLogLevel := pahoLogLevel o1,
              mqAckTimeout := ackTimeout o1\<rparr>)"

text \<open>\<^verbatim>\<open>newClientFunc(toClientOptions(c, o, suffix))\<close>.\<close>

definition newMqttClient ::
  "ext \<Rightarrow> 'v clientOptions \<Rightarrow> string \<Rightarrow> ('v, 'x) client_scheme \<Rightarrow>
   mclient \<times> ('v, 'x) client_scheme" where
  "newMqttClient E o1 suffix c =
     (let opts = toClientOptions E (trace c) o1 suffix; m = newClientFunc E (trace c) opts
      in (m, c\<lparr>trace := trace c @ [NewMqttClient m opts]\<rparr>))"

section \<open>Construction\<close>

text \<open>A new \<^verbatim>\<open>internalState\<close>, stored under \<open>key\<close> and appended to the ordered connections.\<close>

definition addConnection ::
  "string \<Rightarrow> mclient \<Rightarrow> ('v, 'x) client_scheme \<Rightarrow> ('v, 'x) client_scheme" where
  "addConnection key m c =
     (let a = nextAddr c
      in c\<lparr>states := (states c)(a := \<lparr>subsCalled = {}, isClient = m\<rparr>), nextAddr := Suc a,
           mqttClients := AList.update key a (mqttClients c),
           orderedClients := orderedClients c @ [a]\<rparr>)"

definition poolStep :: "ext \<Rightarrow> nat \<Rightarrow> ('v, 'x) client_scheme \<Rightarrow> ('v, 'x) client_scheme" where
  "poolStep E i c =
     (let (m, c') = newMqttClient E (options c) (''-'' @ dec i) c;
          poolID = clientID (options c') @ ''-'' @ dec i
      in addConnection poolID m c')"

definition initializeConnectionPool ::
  "ext \<Rightarrow> ('v, 'x) client_scheme \<Rightarrow> ('v, 'x) client_scheme" where
  "initializeConnectionPool E c =
     fold (poolStep E) [0..<nat (poolSize (options c))]
       (c\<lparr>mqttClients := [], orderedClients := []\<rparr>)"

definition freshClient :: "'v clientOptions \<Rightarrow> 'v client" where
  "freshClient co =
     \<lparr>options = co, subscriptions = [], mqttClient = None, mqttClients = [],
      orderedClients = [], rrCounter = 0, multiConnRevision = 0, stopInfoEmitter = None,
      states = (\<lambda>_. \<lparr>subsCalled = {}, isClient = 0\<rparr>), nextAddr = 0, goroutines = [],
      trace = []\<rparr>"

definition NewClient ::
  "ext \<Rightarrow> 'v Encoder \<Rightarrow> (reader \<Rightarrow> 'v Decoder) \<Rightarrow> 'v ClientOption list \<Rightarrow>
   goerror + 'v client" where
  "NewClient E jsonEnc jsonDec opts =
     (let co = applyOptions opts (defaultClientOptions jsonEnc jsonDec)
      in case checkOptions co of
           Some e \<Rightarrow> Inl e
         | None \<Rightarrow>
             (let c = freshClient co
              in if brokerAddress co \<noteq> []
                 then if poolEnabled co then Inr (initializeConnectionPool E c)
                      else (let (m, c') = newMqttClient E co [] c
                            in Inr (c'\<lparr>mqttClient := Some m\<rparr>))
                 else Inr c))"

section \<open>Asking all connections\<close>

text \<open>\<^verbatim>\<open>uint(c.options.gracefulShutdownPeriod / time.Millisecond)\<close>.\<close>

definition disconnectQuiesce :: "'v clientOptions \<Rightarrow> 64 word" where
  "disconnectQuiesce o1 = word_of_int (gracefulShutdownPeriod o1 sdiv millisecond)"

definition disconnectOne :: "mclient \<Rightarrow> ('v, 'x) client_scheme act" where
  "disconnectOne m c =
     (Return None, c\<lparr>trace := trace c @ [MDisconnect m (disconnectQuiesce (options c))]\<rparr>)"

text \<open>
  The variable \<^verbatim>\<open>val\<close> that the closure of \<^verbatim>\<open>IsConnected\<close> sets is an extra component of the
  state while it runs.
\<close>

definition setVal :: "('v, bool \<times> 'x) client_scheme \<Rightarrow> ('v, bool \<times> 'x) client_scheme" where
  "setVal c = client.more_update (\<lambda>(_, x). (True, x)) c"

definition isConnectedRun ::
  "ext \<Rightarrow> ('v, 'x) client_scheme \<Rightarrow> outcome \<times> ('v, bool \<times> 'x) client_scheme" where
  "isConnectedRun E c =
     execute E context_Background
       (\<lambda>cc. onClient cc (\<lambda>m s. (Return None,
          if isConnectionOpen E (trace s) m then setVal s else s)))
       execAll (client.extend (client.truncate c) (False, client.more c))"

definition IsConnected :: "ext \<Rightarrow> ('v, 'x) client_scheme \<Rightarrow> bool" where
  "IsConnected E c =
     (let (r, c') = isConnectedRun E c in r = Return None \<and> fst (client.more c'))"

definition connectWait :: "'v clientOptions \<Rightarrow> token \<Rightarrow> err" where
  "connectWait o1 t =
     (if \<not> tokWaitTimeout t (connectTimeout o1) then Some ErrConnectTimeout else tokError t)"

definition connectOne :: "ext \<Rightarrow> mclient \<Rightarrow> ('v, 'x) client_scheme act" where
  "connectOne E m c =
     (let (t, c') = pahoCall E (MConnect m) c in (Return (connectWait (options c') t), c'))"

definition handleInfoEmitter :: "('v, 'x) client_scheme \<Rightarrow> ('v, 'x) client_scheme" where
  "handleInfoEmitter c =
     (if emitterSet (options c)
      then c\<lparr>stopInfoEmitter := Some False, goroutines := goroutines c @ [GoInfoEmitter]\<rparr>
      else c)"

definition runConnect :: "ext \<Rightarrow> ('v, 'x) client_scheme act" where
  "runConnect E c =
     (case execute E context_Background (\<lambda>cc. onClient cc (connectOne E)) execAll c of
        (Return None, c') \<Rightarrow> (Return None, handleInfoEmitter c')
      | r \<Rightarrow> r)"

definition stop :: "ext \<Rightarrow> ('v, 'x) client_scheme act" where
  "stop E c =
     (case execute E context_Background (\<lambda>cc. onClient cc disconnectOne) execAll c of
        (Return e, c') \<Rightarrow>
          (let c'' = (case stopInfoEmitter c' of
                        Some _ \<Rightarrow> c'\<lparr>stopInfoEmitter := Some True\<rparr> | None \<Rightarrow> c')
           in (Return e, if e = None
                 then c''\<lparr>mqttClient := None, mqttClients := [], orderedClients := []\<rparr>
                 else c''))
      | r \<Rightarrow> r)"

definition stopHandlerFunc :: "('v, 'x) client_scheme Stopper" where
  "stopHandlerFunc E c = stop E c"

definition UseStopMiddleware ::
  "(('v, 'x) client_scheme Stopper \<Rightarrow> ('v, 'x) client_scheme Stopper) option \<Rightarrow>
   ('v, ('v, 'x) client_scheme) handlers \<Rightarrow> ('v, ('v, 'x) client_scheme) handlers" where
  "UseStopMiddleware mwf H =
     (case mwf of
        Some mw \<Rightarrow> H\<lparr>stopMiddleware := mwf, stopHandler := mw stopHandlerFunc\<rparr>
      | None \<Rightarrow> H\<lparr>stopMiddleware := mwf, stopHandler := stopHandlerFunc\<rparr>)"

definition Stop ::
  "('v, ('v, 'x) client_scheme) handlers \<Rightarrow> ext \<Rightarrow> ('v, 'x) client_scheme \<Rightarrow>
   ('v, 'x) client_scheme" where
  "Stop H E c = snd (stopHandler H E c)"

text \<open>The handlers \<^verbatim>\<open>NewClient\<close> installs.\<close>

definition newHandlers :: "('v, ('v, 'x) client_scheme) handlers" where
  "newHandlers =
     \<lparr>publisher = publishHandler, subscriber = subscriberFuncs,
      unsubscriber = unsubscriberHandler, stopHandler = stopHandlerFunc,
      pMiddlewares = [], sMiddlewares = [], usMiddlewares = [], stopMiddleware = None\<rparr>"

section \<open>Following a resolver\<close>

definition resumeSubscriptions ::
  "('v, ('v, 'x) client_scheme) handlers \<Rightarrow> ext \<Rightarrow> ('v, 'x) client_scheme act" where
  "resumeSubscriptions H E c =
     (if length (subscriptions c) = 0 then (Return None, c)
      else fanOut E
             (\<lambda>tm. subscribe (subscriber H) E context_Background (smTopic tm) (smCallback tm)
                     (smOptions tm))
             (mapValues (valuesOrder E) (subscriptions c)) c)"

definition reloadClient ::
  "mclient option \<Rightarrow> ('v, 'x) client_scheme \<Rightarrow> ('v, 'x) client_scheme" where
  "reloadClient cc c =
     c\<lparr>mqttClient := cc,
       goroutines := goroutines c @
         (case mqttClient c of Some old \<Rightarrow> [GoDisconnectOld old] | None \<Rightarrow> [])\<rparr>"

text \<open>
  The recursion of \<^verbatim>\<open>newClient\<close> ends when an attempt succeeds; it is bounded here by the fuel of
  the environment.
\<close>

fun newClientLoop ::
  "nat \<Rightarrow> ext \<Rightarrow> TCPAddress list \<Rightarrow> nat \<Rightarrow> ('v, 'x) client_scheme \<Rightarrow>
   mclient option \<times> ('v, 'x) client_scheme" where
  "newClientLoop 0 E addrs attempt c = (None, c)"
| "newClientLoop (Suc fuel) E addrs attempt c =
     (let a = addrs ! (attempt mod length addrs);
          opts = (options c)\<lparr>brokerAddress := TCPAddress_text (Host a) (Port a)\<rparr>;
          (cc, c1) = newMqttClient E opts [] c;
          (t, c2) = pahoCall E (MConnect cc) c1
      in if \<not> tokWaitTimeout t (connectTimeout (options c2))
         then newClientLoop fuel E addrs (attempt + 1) c2
         else case tokError t of
                Some _ \<Rightarrow> newClientLoop fuel E addrs (attempt + 1) c2
              | None \<Rightarrow> (Some cc, c2))"

definition attemptSingleConnection ::
  "('v, ('v, 'x) client_scheme) handlers \<Rightarrow> ext \<Rightarrow> TCPAddress list \<Rightarrow>
   ('v, 'x) client_scheme act" where
  "attemptSingleConnection H E addrs c =
     (if length addrs = 0 then (Return None, reloadClient None c)
      else case newClientLoop (retryFuel E) E addrs 0 c of
             (None, c') \<Rightarrow> (Blocked, c')
           | (Some cc, c') \<Rightarrow> resumeSubscriptions H E (reloadClient (Some cc) c'))"

record indexAddress =
  iaIndex :: nat
  iaAddr :: TCPAddress

definition indexAddresses :: "ext \<Rightarrow> TCPAddress list \<Rightarrow> indexAddress list" where
  "indexAddresses E addrs =
     fst (sliceCalls (mapOrder E) \<lparr>iaIndex = 0, iaAddr = TCPAddress [] 0\<rparr>
       (\<lambda>a i. (\<lparr>iaIndex = i, iaAddr = a\<rparr>, Suc i)) addrs (0::nat))"

definition multiKey :: "indexAddress \<Rightarrow> string" where
  "multiKey ia = TCPAddress_String (iaAddr ia) @ ''-'' @ dec (iaIndex ia)"

text \<open>
  One concurrent attempt: it stores its client in the shared \<^verbatim>\<open>sync.Map\<close> (second component of
  the state) before it connects. The errors are only logged.
\<close>

definition multiAttempt ::
  "ext \<Rightarrow> 64 word \<Rightarrow> indexAddress \<Rightarrow>
   ('v, 'x) client_scheme \<times> (string, mclient) gomap \<Rightarrow>
   err \<times> ('v, 'x) client_scheme \<times> (string, mclient) gomap" where
  "multiAttempt E currRev ia s =
     (let (c, clients) = s;
          opts = (options c)\<lparr>brokerAddress := TCPAddress_String (iaAddr ia)\<rparr>;
          suffix = ''-'' @ dec (iaIndex ia) @ ''-'' @ dec (unat (currRev + 1));
          (cc, c1) = newMqttClient E opts suffix c;
          (t, c2) = pahoCall E (MConnect cc) c1
      in (connectWait (options c2) t, c2, AList.update (multiKey ia) cc clients))"

definition multipleClients ::
  "ext \<Rightarrow> TCPAddress list \<Rightarrow> ('v, 'x) client_scheme \<Rightarrow>
   (string, mclient) gomap \<times> ('v, 'x) client_scheme" where
  "multipleClients E addrs c =
     (let currRev = multiConnRevision c;
          (_, c1, clients) =
            sliceCalls (concOrder E) None (multiAttempt E currRev) (indexAddresses E addrs) (c, []);
          res = fold (\<lambda>(k, cc). AList.update k cc) (mapEntries (rangeOrder E) clients) [];
          anyConnected = (\<exists>e\<in>set clients. isConnectionOpen E (trace c1) (snd e));
          (res, c2) =
            (if \<not> anyConnected
             then ([], c1\<lparr>goroutines := goroutines c1 @
                            [GoDisconnectAll (mapValues (valuesOrder E) res)]\<rparr>)
             else (res, c1))
      in (res,
          if length res > 0 \<and> multiConnRevision c2 = currRev
          then c2\<lparr>multiConnRevision := currRev + 1\<rparr> else c2))"

definition reloadClients ::
  "ext \<Rightarrow> (string, mclient) gomap \<Rightarrow> ('v, 'x) client_scheme \<Rightarrow> ('v, 'x) client_scheme" where
  "reloadClients E clients c =
     (let ocs = map (\<lambda>a. isClient (states c a)) (mapValues (valuesOrder E) (mqttClients c));
          c1 = (if length clients > 0
                then fold (\<lambda>(k, cc). addConnection k cc) (mapEntries (rangeOrder E) clients)
                       (c\<lparr>mqttClients := [], orderedClients := []\<rparr>)
                else c)
      in if length ocs = 0 \<or> length clients = 0 then c1
         else c1\<lparr>goroutines := goroutines c1 @ [GoDisconnectAll ocs]\<rparr>)"

definition attemptMultiConnections ::
  "('v, ('v, 'x) client_scheme) handlers \<Rightarrow> ext \<Rightarrow> TCPAddress list \<Rightarrow>
   ('v, 'x) client_scheme act" where
  "attemptMultiConnections H E addrs c =
     (let (clients, c1) = multipleClients E addrs c
      in resumeSubscriptions H E (reloadClients E clients c1))"

definition attemptConnections ::
  "('v, ('v, 'x) client_scheme) handlers \<Rightarrow> ext \<Rightarrow> TCPAddress list \<Rightarrow>
   ('v, 'x) client_scheme act" where
  "attemptConnections H E addrs c =
     (if multiConnectionMode (options c) then attemptMultiConnections H E addrs c
      else attemptSingleConnection H E addrs c)"

text \<open>
  The first \<^verbatim>\<open>select\<close> of \<^verbatim>\<open>runResolver\<close>: \<^term>\<open>None\<close> when the timeout of \<^verbatim>\<open>connectTimeout\<close> is taken.
\<close>

definition runResolver ::
  "('v, ('v, 'x) client_scheme) handlers \<Rightarrow> ext \<Rightarrow> TCPAddress list option \<Rightarrow>
   ('v, 'x) client_scheme act" where
  "runResolver H E upd c =
     (case upd of
        None \<Rightarrow> (Return (Some ErrConnectTimeout), c)
      | Some addrs \<Rightarrow> (case attemptConnections H E addrs c of
            (Return None, c') \<Rightarrow>
              (let c'' = handleInfoEmitter c'
               in (Return None, c''\<lparr>goroutines := goroutines c'' @ [GoWatchAddressUpdates]\<rparr>))
          | r \<Rightarrow> r))"

definition Start ::
  "('v, ('v, 'x) client_scheme) handlers \<Rightarrow> ext \<Rightarrow> TCPAddress list option \<Rightarrow>
   ('v, 'x) client_scheme act" where
  "Start H E upd c =
     (if resolver (options c) \<noteq> None then runResolver H E upd c else runConnect E c)"

text \<open>
  What the watcher's \<^verbatim>\<open>select\<close> takes in each round. The outcome of an attempt is only logged;
  \<^term>\<open>False\<close> when the watcher has not returned after the given rounds.
\<close>

datatype resolverEvent = ResolverDone | ResolverUpdate "TCPAddress list"

fun watchAddressUpdates ::
  "('v, ('v, 'x) client_scheme) handlers \<Rightarrow> (ext \<times> resolverEvent) list \<Rightarrow>
   ('v, 'x) client_scheme \<Rightarrow> bool \<times> ('v, 'x) client_scheme" where
  "watchAddressUpdates H [] c = (False, c)"
| "watchAddressUpdates H ((E, ResolverDone) # es) c = (True, c)"
| "watchAddressUpdates H ((E, ResolverUpdate addrs) # es) c =
     watchAddressUpdates H es (snd (attemptConnections H E addrs c))"

section \<open>Goroutines and connection events\<close>

definition disconnectAll ::
  "ext \<Rightarrow> mclient list \<Rightarrow> ('v, 'x) client_scheme \<Rightarrow> ('v, 'x) client_scheme" where
  "disconnectAll E cls c = snd (sliceCalls (concOrder E) (Return None) disconnectOne cls c)"

fun runGoroutine ::
  "ext \<Rightarrow> goroutine \<Rightarrow> ('v, 'x) client_scheme \<Rightarrow> ('v, 'x) client_scheme" where
  "runGoroutine E (GoDisconnectAll cls) c = disconnectAll E cls c"
| "runGoroutine E (GoDisconnectOld m) c = snd (disconnectOne m c)"
| "runGoroutine E GoWatchAddressUpdates c = c"
| "runGoroutine E GoInfoEmitter c = c"

definition removeStoredSubsCalled ::
  "ext \<Rightarrow> mclient \<Rightarrow> ('v, 'x) client_scheme \<Rightarrow> ('v, 'x) client_scheme" where
  "removeStoredSubsCalled E cc c =
     fold (\<lambda>(_, a) c.
             if isClient (states c a) = cc
             then updState a (\<lambda>s. s\<lparr>subsCalled :=
                    set_Delete E (subsCalled s) (set_Values E (subsCalled s))\<rparr>) c
             else c)
       (mapEntries (rangeOrder E) (mqttClients c)) c"

definition connectionLostHandler ::
  "ext \<Rightarrow> mclient \<Rightarrow> goerror \<Rightarrow> ('v, 'x) client_scheme \<Rightarrow> ('v, 'x) client_scheme" where
  "connectionLostHandler E cc e c =
     (let c' = removeStoredSubsCalled E cc c
      in case onConnectionLostHandler (options c) of
           Some h \<Rightarrow> c'\<lparr>trace := trace c' @ [OnConnectionLost h e]\<rparr>
         | None \<Rightarrow> c')"

definition reconnectHandler :: "('v, 'x) client_scheme \<Rightarrow> ('v, 'x) client_scheme" where
  "reconnectHandler c = (case onReconnectHandler (options c) of
       Some h \<Rightarrow> c\<lparr>trace := trace c @ [OnReconnect h]\<rparr>
     | None \<Rightarrow> c)"

definition onConnect :: "('v, 'x) client_scheme \<Rightarrow> ('v, 'x) client_scheme" where
  "onConnect c = (case onConnectHandler (options c) of
       Some h \<Rightarrow> c\<lparr>trace := trace c @ [OnConnect h]\<rparr>
     | None \<Rightarrow> c)"

section \<open>Accessors\<close>

definition Client_KeepAlive :: "('v, 'x) client_scheme \<Rightarrow> int" where
  "Client_KeepAlive c = keepAlive (options c)"

definition Client_WriteTimeout :: "('v, 'x) client_scheme \<Rightarrow> int" where
  "Client_WriteTimeout c = writeTimeout (options c)"

definition Client_ConnectTimeout :: "('v, 'x) client_scheme \<Rightarrow> int" where
  "Client_ConnectTimeout c = connectTimeout (options c)"

definition Client_AckTimeout :: "('v, 'x) client_scheme \<Rightarrow> int" where
  "Client_AckTimeout c = ackTimeout (options c)"

definition Client_PoolSize :: "('v, 'x) client_scheme \<Rightarrow> int" where
  "Client_PoolSize c = poolSize (options c)"

end
