(* ===== verification/Invariant.thy ===== *)
theory Invariant
  imports Connect
begin

text \<open>
  The invariant of a client: the map and the ordered slice of connections hold the same
  objects, each once, keys are distinct, and the registry files every subscription under
  its own topic. Every operation keeps it, for every environment, and every client the
  package constructs satisfies it.
\<close>

section \<open>The invariant\<close>

definition wfClient :: "('v, 'x) client_scheme \<Rightarrow> bool" where
  "wfClient c \<longleftrightarrow>
     \<not> (poolEnabled (options c) \<and> multiConnectionMode (options c)) \<and>
     distinct_keys (mqttClients c) \<and>
     mset (orderedClients c) = mset (map snd (mqttClients c)) \<and>
     distinct (orderedClients c) \<and>
     (\<forall>a\<in>set (orderedClients c). a < nextAddr c) \<and>
     distinct_keys (subscriptions c) \<and>
     (\<forall>e\<in>set (subscriptions c). smTopic (snd e) = fst e)"

lemma wfClient_distinct_addresses:
  "wfClient c \<Longrightarrow> distinct (map snd (mqttClients c))"
  unfolding wfClient_def by (metis mset_eq_imp_distinct_iff)

lemma wfClient_length: "wfClient c \<Longrightarrow> length (orderedClients c) = length (mqttClients c)"
  unfolding wfClient_def by (metis length_map mset_eq_length)

lemma wfClient_values:
  assumes "wfClient c" and "ext_ok E"
  shows "distinct (mapValues (valuesOrder E) (mqttClients c))"
    "set (mapValues (valuesOrder E) (mqttClients c)) = set (orderedClients c)"
    "mset (mapValues (valuesOrder E) (mqttClients c)) = mset (orderedClients c)"
proof -
  have wf: "distinct_keys (mqttClients c)" "mset (orderedClients c) = mset (map snd (mqttClients c))"
    "distinct (orderedClients c)"
    using assms(1) by (auto simp: wfClient_def)
  show ms: "mset (mapValues (valuesOrder E) (mqttClients c)) = mset (orderedClients c)"
    using wf assms(2) by (simp add: mset_mapValues)
  with wf(3) show "distinct (mapValues (valuesOrder E) (mqttClients c))"
    by (metis mset_eq_imp_distinct_iff)
  from ms show "set (mapValues (valuesOrder E) (mqttClients c)) = set (orderedClients c)"
    by (metis mset_eq_setD)
qed

section \<open>Operations that keep the shape of the connections\<close>

text \<open>Only the trace, the subscription sets and the round-robin counter may differ.\<close>

definition sameShape :: "('v, 'x) client_scheme \<Rightarrow> ('v, 'x) client_scheme \<Rightarrow> bool" where
  "sameShape c c' \<longleftrightarrow>
     c' = c\<lparr>trace := trace c', states := states c', rrCounter := rrCounter c'\<rparr> \<and>
     (\<forall>a. isClient (states c' a) = isClient (states c a))"

lemma sameShape_refl [simp]: "sameShape c c"
  by (simp add: sameShape_def)

lemma sameShape_trans: "sameShape c d \<Longrightarrow> sameShape d e \<Longrightarrow> sameShape c e"
  by (cases c; cases d; cases e) (auto simp: sameShape_def)

lemma sameShape_trace [simp]: "sameShape c (c\<lparr>trace := tr\<rparr>)"
  by (simp add: sameShape_def)

lemma sameShape_rrCounter [simp]: "sameShape c (c\<lparr>rrCounter := n\<rparr>)"
  by (simp add: sameShape_def)

lemma sameShape_updState:
  "sameShape c c' \<Longrightarrow> (\<And>s. isClient (g s) = isClient s) \<Longrightarrow> sameShape c (updState a g c')"
  by (cases c; cases c') (auto simp: sameShape_def updState_def)

lemma sameShape_callback [simp]: "sameShape c (callClientIDCallback ctx i c)"
  by (auto simp: callClientIDCallback_def split: option.splits)

lemma sameShape_fields:
  assumes "sameShape c c'"
  shows "options c' = options c" "subscriptions c' = subscriptions c"
    "mqttClient c' = mqttClient c" "mqttClients c' = mqttClients c"
    "orderedClients c' = orderedClients c" "nextAddr c' = nextAddr c"
    "goroutines c' = goroutines c" "isClient (states c' a) = isClient (states c a)"
    "multiConnRevision c' = multiConnRevision c" "stopInfoEmitter c' = stopInfoEmitter c"
  using assms by (cases c; cases c'; auto simp: sameShape_def)+

lemma sameShape_wfClient: "sameShape c c' \<Longrightarrow> wfClient c \<Longrightarrow> wfClient c'"
  by (simp add: wfClient_def sameShape_fields)

lemma onlySubs_sameShape: "onlySubs c c' \<Longrightarrow> sameShape c c'"
  by (cases c; cases c') (auto simp: sameShape_def onlySubs_def)

lemma sameShape_request [simp]: "sameShape c (snd (pahoRequest E ctx te mk cc c))"
  by (cases cc) simp_all

lemma fanOut_rel:
  assumes "\<And>x s. rel s (snd (f x s))" and "\<And>s. rel s s"
    and "\<And>s t u. rel s t \<Longrightarrow> rel t u \<Longrightarrow> rel s u"
  shows "rel s (snd (fanOut E f xs s))"
  unfolding snd_fanOut sliceCalls_def
  by (rule callsInOrder_state [where P = "rel s"], erule assms(3), rule assms(1), rule assms(2))

text \<open>
  The interface of the dispatcher as its callers use it: whatever relation every call on a
  client keeps, the dispatch keeps.
\<close>

locale client_runner =
  fixes run :: "(mclient option \<Rightarrow> 's act) \<Rightarrow> 's act"
    and rel :: "'s \<Rightarrow> 's \<Rightarrow> bool"
  assumes run_rel: "(\<And>cc s. rel s (snd (f cc s))) \<Longrightarrow> rel s (snd (run f s))"
begin

lemma run_keeps:
  assumes "\<And>cc s. rel s (snd (f cc s))" and "\<And>s t. rel s t \<Longrightarrow> P s \<Longrightarrow> P t" and "P s"
  shows "P (snd (run f s))"
  by (rule assms(2) [OF run_rel assms(3)]) (rule assms(1))

end

lemma execOne_sameShape:
  assumes "\<And>cc s. sameShape s (snd (f cc s))"
  shows "sameShape c (snd (execOne E ctx f a c))"
  using assms sameShape_callback sameShape_trans unfolding execOne_def Let_def by metis

lemma execute_sameShape:
  assumes "\<And>cc s. sameShape s (snd (f cc s))"
    and "\<And>g a s. eo = ExecOptWithState g \<Longrightarrow> sameShape s (snd (g f a s))"
  shows "sameShape c (snd (execute E ctx f eo c))"
proof -
  have one: "sameShape c (snd (execOne E ctx f a c'))" if "sameShape c c'" for a c'
    using that execOne_sameShape [of f, OF assms(1)] sameShape_trans by blast
  have fan: "sameShape c (snd (fanOut E h xs c))" if "\<And>x s. sameShape s (snd (h x s))" for h and xs :: "addr list"
    using fanOut_rel [of sameShape h] that sameShape_refl sameShape_trans by blast
  have "sameShape c (snd (execMultiConn E ctx f eo c))"
  proof (cases eo)
    case (ExecOptConst k)
    then show ?thesis
      using assms(1)
      by (auto simp: execMultiConn_def Let_def atomicCounter_next_def one fan split: option.split)
  next
    case (ExecOptWithState g)
    with assms(2) show ?thesis by (simp add: execMultiConn_def fan)
  next
    case ExecOptOther
    then show ?thesis by (simp add: execMultiConn_def)
  qed
  moreover have "sameShape c (snd (f cc (callClientIDCallback ctx i c)))" for cc i
    using assms(1) sameShape_callback sameShape_trans by metis
  ultimately show ?thesis by (simp add: execute_def)
qed

interpretation execConst: client_runner "\<lambda>f. execute E ctx f (ExecOptConst k)" sameShape
  for E ctx k
  by unfold_locales (rule execute_sameShape, simp_all)

interpretation execOnce: client_runner "\<lambda>f. execute E ctx f (subscribeOnlyOnce E topic)" sameShape
  for E ctx topic
proof
  fix f :: "mclient option \<Rightarrow> ('a, 'b) client_scheme act" and s
  assume f: "\<And>cc s. sameShape s (snd (f cc s))"
  have "sameShape s (snd (onceOn E topic f a s))" for a s
    using f [of s "Some (isClient (states s a))"]
    by (auto simp: onceOn_def sameShape_updState split: prod.splits outcome.splits option.splits)
  with f show "sameShape s (snd (execute E ctx f (subscribeOnlyOnce E topic) s))"
    by (intro execute_sameShape) (auto simp: subscribeOnlyOnce_def)
qed

interpretation execRemove: client_runner "\<lambda>f. execute E ctx f (removeSubsFromState E topics)" sameShape
  for E ctx topics
proof
  fix f :: "mclient option \<Rightarrow> ('a, 'b) client_scheme act" and s
  assume f: "\<And>cc s. sameShape s (snd (f cc s))"
  have "sameShape s (snd (removeOn E topics f a s))" for a s
    using f [of s "Some (isClient (states s a))"]
    by (auto simp: removeOn_def sameShape_updState split: prod.splits outcome.splits option.splits)
  with f show "sameShape s (snd (execute E ctx f (removeSubsFromState E topics) s))"
    by (intro execute_sameShape) (auto simp: removeSubsFromState_def)
qed

lemma publishHandler_sameShape: "sameShape c (snd (publishHandler E ctx topic m opts c))"
  by (auto simp: publishHandler_def Let_def execOpt_defs intro!: execConst.run_rel
      split: prod.splits option.splits)

lemma subscribeFunc_sameShape: "sameShape c (snd (subscribeFunc E ctx topic cb opts c))"
  by (auto simp: subscribeFunc_def Let_def execOpt_defs intro!: execConst.run_rel execOnce.run_rel)

lemma fanOut_rel_mem:
  assumes "perm_order (concOrder E)" and "\<And>x s. x \<in> set xs \<Longrightarrow> rel s (snd (f x s))" and "\<And>s. rel s s"
    and "\<And>s t u. rel s t \<Longrightarrow> rel t u \<Longrightarrow> rel s u"
  shows "rel s (snd (fanOut E f xs s))"
  unfolding snd_fanOut
  by (rule sliceCalls_state [where P = "rel s"], rule assms(1), erule assms(4), erule assms(2),
      rule assms(3))

lemma subscribeMultipleFunc_sameShape:
  assumes "ext_ok E"
  shows "sameShape c (snd (subscribeMultipleFunc E ctx tq cb c))"
proof -
  have "sameShape s (snd (execute E ctx (pahoRequest E ctx te mk) (ExecOptConst k) s))" for te mk k s
    by (rule execConst.run_rel) simp
  then have req: "sameShape s (snd (f s))"
    if "f \<in> {\<lambda>c. execute E ctx (pahoRequest E ctx te mk) (ExecOptConst k) c | te mk k. True}" for f s
    using that by blast
  show ?thesis
    unfolding subscribeMultipleFunc_def Let_def execOpt_defs
    by (cases "filterSubs E tq (sharedSubscriptionPredicate (options c))", simp only: prod.case,
        rule fanOut_rel_mem [of E _ sameShape], simp add: assms, rule req)
      (auto intro: sameShape_trans)
qed

lemma unsubscriberHandler_sameShape: "sameShape c (snd (unsubscriberHandler E ctx topics c))"
  unfolding unsubscriberHandler_def by (rule execRemove.run_rel) simp

section \<open>Handlers that keep the invariant\<close>

text \<open>
  A middleware is code of the application: it cannot reach the fields of the client. What
  the client relies on is that a call through it keeps the invariant.
\<close>

definition keeps :: "('s \<Rightarrow> bool) \<Rightarrow> 's act \<Rightarrow> bool" where
  "keeps I f \<longleftrightarrow> (\<forall>s. I s \<longrightarrow> I (snd (f s)))"

lemma keepsD: "keeps I f \<Longrightarrow> I s \<Longrightarrow> I (snd (f s))"
  by (simp add: keeps_def)

definition okPublisher :: "('v, ('v, 'x) client_scheme) Publisher \<Rightarrow> bool" where
  "okPublisher p \<longleftrightarrow> (\<forall>E ctx t m os. ext_ok E \<longrightarrow> keeps wfClient (p E ctx t m os))"

definition okSubscriber :: "('v, 'x) client_scheme Subscriber \<Rightarrow> bool" where
  "okSubscriber s \<longleftrightarrow>
     (\<forall>E ctx t cb os. ext_ok E \<longrightarrow> keeps wfClient (subscribe s E ctx t cb os)) \<and>
     (\<forall>E ctx tq cb. ext_ok E \<longrightarrow> keeps wfClient (subscribeMultiple s E ctx tq cb))"

definition okUnsubscriber :: "('v, 'x) client_scheme Unsubscriber \<Rightarrow> bool" where
  "okUnsubscriber u \<longleftrightarrow> (\<forall>E ctx ts. ext_ok E \<longrightarrow> keeps wfClient (u E ctx ts))"

definition okStopper :: "('v, 'x) client_scheme Stopper \<Rightarrow> bool" where
  "okStopper s \<longleftrightarrow> (\<forall>E. ext_ok E \<longrightarrow> keeps wfClient (s E))"

definition okHandlers :: "('v, ('v, 'x) client_scheme) handlers \<Rightarrow> bool" where
  "okHandlers H \<longleftrightarrow> okPublisher (publisher H) \<and> okSubscriber (subscriber H) \<and>
     okUnsubscriber (unsubscriber H) \<and> okStopper (stopHandler H)"

lemmas ok_defs = okPublisher_def okSubscriber_def okUnsubscriber_def okStopper_def keeps_def

lemma execute_disconnect_sameShape:
  "sameShape c (snd (execute E ctx (\<lambda>cc. onClient cc disconnectOne) execAll c))"
  unfolding execOpt_defs
  by (rule execConst.run_rel) (auto simp: onClient_def disconnectOne_def split: option.splits)

lemma wfClient_stop: "wfClient c \<Longrightarrow> wfClient (snd (stop E c))"
proof -
  assume wf: "wfClient c"
  let ?r = "execute E context_Background (\<lambda>cc. onClient cc disconnectOne) execAll c"
  have "wfClient (snd ?r)"
    using execute_disconnect_sameShape wf by (rule sameShape_wfClient)
  then show ?thesis
    by (auto simp: stop_def Let_def wfClient_def split: prod.splits outcome.splits option.splits)
qed

lemma okHandlers_newHandlers: "okHandlers newHandlers"
  unfolding okHandlers_def
proof (intro conjI)
  show "okPublisher (publisher newHandlers)"
    by (simp add: newHandlers_def ok_defs sameShape_wfClient [OF publishHandler_sameShape])
  show "okSubscriber (subscriber newHandlers)"
    by (simp add: newHandlers_def subscriberFuncs_def ok_defs
        sameShape_wfClient [OF subscribeFunc_sameShape]
        sameShape_wfClient [OF subscribeMultipleFunc_sameShape])
  show "okUnsubscriber (unsubscriber newHandlers)"
    by (simp add: newHandlers_def ok_defs sameShape_wfClient [OF unsubscriberHandler_sameShape])
  show "okStopper (stopHandler newHandlers)"
    by (simp add: newHandlers_def stopHandlerFunc_def ok_defs wfClient_stop)
qed

section \<open>The registry\<close>

definition wfRegistry :: "(string, subscriptionMeta) gomap \<Rightarrow> bool" where
  "wfRegistry m \<longleftrightarrow> distinct_keys m \<and> (\<forall>e\<in>set m. smTopic (snd e) = fst e)"

lemma wfClient_registry:
  "wfClient c \<Longrightarrow> wfClient (c\<lparr>subscriptions := m\<rparr>) \<longleftrightarrow> wfRegistry m"
  by (simp add: wfClient_def wfRegistry_def)

lemma wfClient_wfRegistry [simp]: "wfClient c \<Longrightarrow> wfRegistry (subscriptions c)"
  by (simp add: wfClient_def wfRegistry_def)

lemma set_update_subset: "set (AList.update k v m) \<subseteq> insert (k, v) (set m)"
  by (induction m) auto

lemma wfRegistry_update:
  "wfRegistry m \<Longrightarrow> smTopic meta = k \<Longrightarrow> wfRegistry (AList.update k meta m)"
  using set_update_subset [of k meta m] by (auto simp: wfRegistry_def distinct_update)

lemma wfRegistry_delete: "wfRegistry m \<Longrightarrow> wfRegistry (AList.delete k m)"
  using distinct_delete [of m k] by (auto simp: wfRegistry_def AList.delete_eq)

lemma wfRegistry_fold_delete: "wfRegistry m \<Longrightarrow> wfRegistry (fold AList.delete ks m)"
  by (induction ks arbitrary: m) (auto simp: wfRegistry_delete)

lemma wfRegistry_fold_update:
  "wfRegistry m \<Longrightarrow> (\<And>k q. smTopic (g k q) = k) \<Longrightarrow>
     wfRegistry (fold (\<lambda>(k, q). AList.update k (g k q)) es m)"
  by (induction es arbitrary: m) (auto simp: wfRegistry_update)

lemma wfClient_Subscribe:
  assumes "okSubscriber (subscriber H)" and "ext_ok E" and "wfClient c"
  shows "wfClient (snd (Subscribe H E ctx topic cb opts c))"
proof -
  have "wfClient (snd (subscribe (subscriber H) E ctx topic cb opts c))"
    using assms by (auto simp: okSubscriber_def intro: keepsD)
  then show ?thesis
    by (auto simp: Subscribe_def wfClient_registry wfRegistry_update
        split: prod.splits outcome.splits option.splits)
qed

lemma wfClient_SubscribeMultiple:
  assumes "okSubscriber (subscriber H)" and "ext_ok E" and "wfClient c"
  shows "wfClient (snd (SubscribeMultiple H E ctx tq cb c))"
proof -
  have "wfClient (snd (subscribeMultiple (subscriber H) E ctx tq cb c))"
    using assms by (auto simp: okSubscriber_def intro: keepsD)
  then show ?thesis
    by (auto simp: SubscribeMultiple_def wfClient_registry intro!: wfRegistry_fold_update
        split: prod.splits outcome.splits option.splits)
qed

lemma wfClient_Unsubscribe:
  assumes "okUnsubscriber (unsubscriber H)" and "ext_ok E" and "wfClient c"
  shows "wfClient (snd (Unsubscribe H E ctx ts c))"
proof -
  have "wfClient (snd (unsubscriber H E ctx ts c))"
    using assms by (auto simp: okUnsubscriber_def intro: keepsD)
  then show ?thesis
    by (auto simp: Unsubscribe_def wfClient_registry wfRegistry_fold_delete
        split: prod.splits outcome.splits option.splits)
qed

section \<open>Adding connections\<close>

lemma update_append: "k \<notin> fst ` set m \<Longrightarrow> AList.update k v m = m @ [(k, v)]"
  by (induction m) auto

text \<open>Connections added under new keys get consecutive addresses, in order.\<close>

lemma addConnection_new:
  "k \<notin> fst ` set (mqttClients c) \<Longrightarrow> addConnection k m c =
     c\<lparr>states := (states c)(nextAddr c := \<lparr>subsCalled = {}, isClient = m\<rparr>),
       nextAddr := Suc (nextAddr c), mqttClients := mqttClients c @ [(k, nextAddr c)],
       orderedClients := orderedClients c @ [nextAddr c]\<rparr>"
  by (simp add: addConnection_def Let_def update_append)

lemma wfClient_addConnection:
  assumes "wfClient c" and "k \<notin> fst ` set (mqttClients c)"
  shows "wfClient (addConnection k m c)"
  using assms by (auto simp: addConnection_new wfClient_def)

lemma fst_mqttClients_addConnection:
  "fst ` set (mqttClients (addConnection k m c)) = insert k (fst ` set (mqttClients c))"
  by (simp add: addConnection_def Let_def dom_update)

lemma wfClient_addConnections:
  assumes "wfClient c" and "distinct (map fst es)"
    and "\<forall>e\<in>set es. fst e \<notin> fst ` set (mqttClients c)"
  shows "wfClient (fold (\<lambda>(k, m). addConnection k m) es c)"
  using assms
proof (induction es arbitrary: c)
  case Nil
  then show ?case by simp
next
  case (Cons e es)
  obtain k m where e: "e = (k, m)" by (cases e)
  with Cons.prems have "wfClient (addConnection k m c)" by (simp add: wfClient_addConnection)
  moreover have "\<forall>e\<in>set es. fst e \<notin> fst ` set (mqttClients (addConnection k m c))"
    using Cons.prems e by (auto simp: fst_mqttClients_addConnection image_iff)
  ultimately have "wfClient (fold (\<lambda>(k, m). addConnection k m) es (addConnection k m c))"
    using Cons.prems by (intro Cons.IH) auto
  with e show ?case by simp
qed

text \<open>The store after new connections to the clients \<open>ms\<close>, from address \<open>n\<close> on.\<close>

definition addedStates ::
  "addr \<Rightarrow> mclient list \<Rightarrow> (addr \<Rightarrow> internalState) \<Rightarrow> addr \<Rightarrow> internalState" where
  "addedStates n ms st a =
     (if n \<le> a \<and> a < n + length ms then \<lparr>subsCalled = {}, isClient = ms ! (a - n)\<rparr> else st a)"

lemma addedStates_Nil [simp]: "addedStates n [] st = st"
  by (rule ext) (auto simp: addedStates_def)

lemma addedStates_Cons:
  "addedStates (Suc n) ms (st(n := \<lparr>subsCalled = {}, isClient = m\<rparr>)) = addedStates n (m # ms) st"
  by (rule ext) (auto simp: addedStates_def nth_Cons' Suc_diff_Suc [symmetric])

lemma addConnections_effect:
  assumes "distinct (map fst es)" and "\<forall>e\<in>set es. fst e \<notin> fst ` set (mqttClients c)"
  shows "fold (\<lambda>(k, m). addConnection k m) es c =
     c\<lparr>states := addedStates (nextAddr c) (map snd es) (states c),
       nextAddr := nextAddr c + length es,
       mqttClients := mqttClients c @
         zip (map fst es) [nextAddr c..<nextAddr c + length es],
       orderedClients := orderedClients c @ [nextAddr c..<nextAddr c + length es]\<rparr>"
  using assms
proof (induction es arbitrary: c)
  case Nil
  then show ?case by simp
next
  case (Cons e es)
  obtain k m where e: "e = (k, m)" by (cases e)
  let ?c = "addConnection k m c" and ?a = "nextAddr c"
  have new: "k \<notin> fst ` set (mqttClients c)" using Cons.prems e by simp
  have "\<forall>e\<in>set es. fst e \<notin> fst ` set (mqttClients ?c)"
    using Cons.prems e by (auto simp: fst_mqttClients_addConnection image_iff)
  with Cons.prems have "fold (\<lambda>(k, m). addConnection k m) es ?c =
     ?c\<lparr>states := addedStates (nextAddr ?c) (map snd es) (states ?c),
       nextAddr := nextAddr ?c + length es,
       mqttClients := mqttClients ?c @ zip (map fst es) [nextAddr ?c..<nextAddr ?c + length es],
       orderedClients := orderedClients ?c @ [nextAddr ?c..<nextAddr ?c + length es]\<rparr>"
    by (intro Cons.IH) auto
  moreover have "[?a..<?a + length (e # es)] = ?a # [Suc ?a..<Suc ?a + length es]"
    by (simp add: upt_conv_Cons del: upt_Suc)
  ultimately show ?case
    by (simp add: addConnection_new [OF new] e addedStates_Cons del: upt_Suc)
qed

section \<open>Construction\<close>

lemma newMqttClient_trace:
  "newMqttClient E o1 suffix c =
     (fst (newMqttClient E o1 suffix c), c\<lparr>trace := trace (snd (newMqttClient E o1 suffix c))\<rparr>)"
  by (simp add: newMqttClient_def Let_def)

lemma newMqttClient_sameShape: "newMqttClient E o1 suffix c = (m, c') \<Longrightarrow> sameShape c c'"
  by (auto simp: newMqttClient_def Let_def)

abbreviation poolKey :: "string \<Rightarrow> nat \<Rightarrow> string" where
  "poolKey cid i \<equiv> cid @ ''-'' @ dec i"

lemma poolStep_effect:
  assumes "poolKey (clientID (options c)) i \<notin> fst ` set (mqttClients c)"
  shows "\<exists>m tr. poolStep E i c = addConnection (poolKey (clientID (options c)) i) m (c\<lparr>trace := tr\<rparr>)"
  by (auto simp: poolStep_def newMqttClient_def Let_def)

text \<open>The pool has one connection per index, under distinct keys.\<close>

lemma pool_loop:
  assumes "wfClient c" and "mqttClients c = []"
  shows "wfClient (fold (poolStep E) [0..<n] c) \<and>
     map fst (mqttClients (fold (poolStep E) [0..<n] c)) =
       map (poolKey (clientID (options c))) [0..<n] \<and>
     options (fold (poolStep E) [0..<n] c) = options c \<and>
     mqttClient (fold (poolStep E) [0..<n] c) = mqttClient c \<and>
     subscriptions (fold (poolStep E) [0..<n] c) = subscriptions c"
proof (induction n)
  case 0
  with assms show ?case by simp
next
  case (Suc n)
  let ?c = "fold (poolStep E) [0..<n] c"
  let ?k = "poolKey (clientID (options c)) n"
  from Suc have IH: "wfClient ?c" "options ?c = options c" "mqttClient ?c = mqttClient c"
    "subscriptions ?c = subscriptions c"
    "map fst (mqttClients ?c) = map (poolKey (clientID (options c))) [0..<n]" by auto
  have "?k \<notin> set (map fst (mqttClients ?c))" unfolding IH(5) by auto
  then have new: "?k \<notin> fst ` set (mqttClients ?c)" by simp
  obtain m tr where step: "poolStep E n ?c = addConnection ?k m (?c\<lparr>trace := tr\<rparr>)"
    using poolStep_effect [of ?c n E] new IH(2) by auto
  have "wfClient (?c\<lparr>trace := tr\<rparr>)"
    using sameShape_wfClient [OF sameShape_trace IH(1)] .
  with new have "wfClient (poolStep E n ?c)"
    unfolding step by (intro wfClient_addConnection) simp_all
  with new step IH show ?case by (simp add: addConnection_new)
qed

lemma wfClient_freshClient:
  "checkOptions co = None \<Longrightarrow> wfClient (freshClient co)"
  by (auto simp: wfClient_def freshClient_def checkOptions_def split: if_splits)

lemma wfClient_clear: "wfClient c \<Longrightarrow> wfClient (c\<lparr>mqttClients := [], orderedClients := []\<rparr>)"
  by (simp add: wfClient_def)

lemma pool_effect:
  assumes "checkOptions co = None"
  shows "wfClient (initializeConnectionPool E (freshClient co))"
    "map fst (mqttClients (initializeConnectionPool E (freshClient co))) =
       map (poolKey (clientID co)) [0..<nat (poolSize co)]"
    "options (initializeConnectionPool E (freshClient co)) = co"
proof -
  let ?c = "(freshClient co)\<lparr>mqttClients := [], orderedClients := []\<rparr>"
  have wf: "wfClient ?c" using assms by (intro wfClient_clear wfClient_freshClient)
  have co: "options (freshClient co) = co" by (simp add: freshClient_def)
  show "wfClient (initializeConnectionPool E (freshClient co))"
    "map fst (mqttClients (initializeConnectionPool E (freshClient co))) =
       map (poolKey (clientID co)) [0..<nat (poolSize co)]"
    "options (initializeConnectionPool E (freshClient co)) = co"
    using pool_loop [OF wf, of E "nat (poolSize co)"] co
    by (simp_all add: initializeConnectionPool_def)
qed

lemma NewClient_cases:
  assumes "NewClient E je jd opts = Inr c"
  defines "co \<equiv> applyOptions opts (defaultClientOptions je jd)"
  obtains (pool) "brokerAddress co \<noteq> []" "poolEnabled co"
      "c = initializeConnectionPool E (freshClient co)" "checkOptions co = None"
    | (single) m tr where "brokerAddress co \<noteq> []" "\<not> poolEnabled co"
      "c = (freshClient co)\<lparr>trace := tr, mqttClient := Some m\<rparr>" "checkOptions co = None"
    | (resolver) "brokerAddress co = []" "c = freshClient co" "checkOptions co = None"
  using assms
  by (auto simp: NewClient_def Let_def newMqttClient_def split: option.splits if_splits)

lemma wfClient_NewClient:
  assumes "NewClient E je jd opts = Inr c"
  shows "wfClient c"
  using assms
proof (cases rule: NewClient_cases)
  case pool
  then show ?thesis by (simp add: pool_effect)
next
  case (single m tr)
  have "wfClient (freshClient (applyOptions opts (defaultClientOptions je jd)))"
    using single(4) by (rule wfClient_freshClient)
  with single(3) show ?thesis by (simp add: wfClient_def)
next
  case resolver
  then show ?thesis by (simp add: wfClient_freshClient)
qed

end
