(* ===== verification/Reach.thy ===== *)
theory Reach
  imports Invariant
begin

text \<open>
  Every state a client can reach: the remaining operations (following a resolver, running
  goroutines, connection events) keep the invariant, and the operations together are a step
  relation over which it holds.
\<close>

section \<open>Numbering the addresses\<close>

abbreviation numberAddr :: "TCPAddress \<Rightarrow> nat \<Rightarrow> indexAddress \<times> nat" where
  "numberAddr a i \<equiv> (\<lparr>iaIndex = i, iaAddr = a\<rparr>, Suc i)"

lemma number_calls:
  assumes "distinct is" and "\<forall>i\<in>set is. i < length xs" and "length rs = length xs"
  shows "(\<forall>k<length is. fst (callsInOrder numberAddr xs is rs n) ! (is ! k) =
            \<lparr>iaIndex = n + k, iaAddr = xs ! (is ! k)\<rparr>) \<and>
         (\<forall>i<length xs. i \<notin> set is \<longrightarrow> fst (callsInOrder numberAddr xs is rs n) ! i = rs ! i)"
  using assms
proof (induction "is" arbitrary: rs n)
  case Nil
  then show ?case by simp
next
  case (Cons i "is")
  let ?r = "fst (callsInOrder numberAddr xs is (rs[i := \<lparr>iaIndex = n, iaAddr = xs ! i\<rparr>]) (Suc n))"
  have IH: "\<forall>k<length is. ?r ! (is ! k) = \<lparr>iaIndex = Suc n + k, iaAddr = xs ! (is ! k)\<rparr>"
    "\<forall>j<length xs. j \<notin> set is \<longrightarrow> ?r ! j = rs[i := \<lparr>iaIndex = n, iaAddr = xs ! i\<rparr>] ! j"
    using Cons.IH [of "rs[i := \<lparr>iaIndex = n, iaAddr = xs ! i\<rparr>]" "Suc n"] Cons.prems by auto
  have "?r ! i = \<lparr>iaIndex = n, iaAddr = xs ! i\<rparr>"
    using IH(2) Cons.prems by auto
  with IH Cons.prems show ?case
    by (auto simp: nth_Cons split: nat.splits)
qed

lemma length_indexAddresses [simp]: "length (indexAddresses E addrs) = length addrs"
  by (simp add: indexAddresses_def)

lemma indexAddresses_order:
  assumes "ext_ok E" and "k < length addrs"
  shows "indexAddresses E addrs ! (mapOrder E (length addrs) ! k) =
     \<lparr>iaIndex = k, iaAddr = addrs ! (mapOrder E (length addrs) ! k)\<rparr>"
proof -
  let ?is = "mapOrder E (length addrs)"
  have "distinct ?is" "set ?is = {0..<length addrs}" using assms(1) by (simp_all add: perm_simps)
  then have "length ?is = length addrs" by (metis card_atLeastLessThan diff_zero distinct_card)
  with \<open>distinct ?is\<close> \<open>set ?is = _\<close> assms(2) show ?thesis
    using number_calls [of ?is addrs "replicate (length addrs) \<lparr>iaIndex = 0, iaAddr = TCPAddress [] 0\<rparr>" 0]
    by (simp add: indexAddresses_def sliceCalls_def)
qed

lemma indexAddresses_addr:
  assumes "ext_ok E"
  shows "map iaAddr (indexAddresses E addrs) = addrs"
proof -
  have "\<forall>i<length addrs. iaAddr (indexAddresses E addrs ! i) = addrs ! i"
    unfolding indexAddresses_def
    by (rule sliceCalls_results [where I = "\<lambda>_. True"]) (use assms in auto)
  then show ?thesis by (intro nth_equalityI) auto
qed

text \<open>The indices are distinct, so the keys are, also for equal addresses.\<close>

lemma distinct_indexAddresses:
  assumes "ext_ok E"
  shows "distinct (map iaIndex (indexAddresses E addrs))"
proof -
  let ?is = "mapOrder E (length addrs)" and ?xs = "indexAddresses E addrs"
  have ord: "distinct ?is" "set ?is = {0..<length addrs}"
    using assms by (simp_all add: perm_simps)
  then have len: "length ?is = length addrs" by (metis card_atLeastLessThan diff_zero distinct_card)
  have "inj_on (\<lambda>i. iaIndex (?xs ! i)) {0..<length addrs}"
  proof (rule inj_onI)
    fix i j assume "i \<in> {0..<length addrs}" and "j \<in> {0..<length addrs}"
    then obtain k l where "k < length addrs" "i = ?is ! k" "l < length addrs" "j = ?is ! l"
      using ord(2) len by (metis in_set_conv_nth)
    moreover assume "iaIndex (?xs ! i) = iaIndex (?xs ! j)"
    ultimately show "i = j" using indexAddresses_order [OF assms] by auto
  qed
  then have "distinct (map (\<lambda>i. iaIndex (?xs ! i)) [0..<length addrs])"
    by (simp add: distinct_map)
  moreover have "map (\<lambda>i. iaIndex (?xs ! i)) [0..<length addrs] = map iaIndex ?xs"
    by (rule nth_equalityI) simp_all
  ultimately show ?thesis by simp
qed

lemma multiKey_inject: "multiKey a = multiKey b \<Longrightarrow> iaIndex a = iaIndex b"
  by (simp add: multiKey_def)

lemma distinct_multiKeys:
  assumes "ext_ok E"
  shows "distinct (map multiKey (indexAddresses E addrs))"
proof -
  have "distinct (map iaIndex xs) \<Longrightarrow> distinct (map multiKey xs)" for xs
    by (induction xs) (auto dest: multiKey_inject)
  with distinct_indexAddresses [OF assms] show ?thesis by blast
qed

section \<open>Several connections\<close>

lemma multiAttempt_state:
  "snd (multiAttempt E rv ia (c, m)) = (c', m') \<Longrightarrow>
     sameShape c c' \<and> (\<exists>cc. m' = AList.update (multiKey ia) cc m)"
  by (auto simp: multiAttempt_def newMqttClient_def pahoCall_def Let_def)

lemma multiAttempt_calls:
  fixes c :: "('v, 'x) client_scheme"
  assumes "callsInOrder (multiAttempt E rv) xs is rs (c, m) = (rs', c', m')"
  shows "sameShape c c' \<and> fst ` set m' = fst ` set m \<union> multiKey ` (!) xs ` set is \<and>
     (distinct_keys m \<longrightarrow> distinct_keys m')"
  using assms
proof (induction "is" arbitrary: rs c m)
  case Nil
  then show ?case by simp
next
  case (Cons i "is")
  obtain e c1 m1 where call: "multiAttempt E rv (xs ! i) (c, m) = (e, c1, m1)"
    by (cases "multiAttempt E rv (xs ! i) (c, m)")
  then obtain cc where step: "sameShape c c1" "m1 = AList.update (multiKey (xs ! i)) cc m"
    using multiAttempt_state [of E rv "xs ! i" c m c1 m1] by auto
  from Cons.prems call have "callsInOrder (multiAttempt E rv) xs is (rs[i := e]) (c1, m1) = (rs', c', m')"
    by simp
  from Cons.IH [OF this] step show ?case
    using sameShape_trans by (auto simp: dom_update distinct_update)
qed

text \<open>
  The parts of \<^verbatim>\<open>multipleClients\<close>: the state after all attempts, and the clients they stored.
\<close>

definition attempted ::
  "ext \<Rightarrow> TCPAddress list \<Rightarrow> ('v, 'x) client_scheme \<Rightarrow>
   ('v, 'x) client_scheme \<times> (string, mclient) gomap" where
  "attempted E addrs c =
     snd (sliceCalls (concOrder E) None (multiAttempt E (multiConnRevision c))
            (indexAddresses E addrs) (c, []))"

lemma attempted_props:
  assumes "ext_ok E" and "attempted E addrs c = (c1, clients)"
  shows "sameShape c c1" "distinct_keys clients" "length clients = length addrs"
proof -
  let ?xs = "indexAddresses E addrs" and ?is = "concOrder E (length addrs)"
  obtain rs' where run: "callsInOrder (multiAttempt E (multiConnRevision c)) ?xs ?is
      (replicate (length addrs) None) (c, []) = (rs', c1, clients)"
    using assms(2) by (auto simp: attempted_def sliceCalls_def prod_eq_iff)
  note props = multiAttempt_calls [OF run]
  show "sameShape c c1" and dk: "distinct_keys clients" using props by auto
  have "set ?is = {0..<length ?xs}" using assms(1) by (simp add: perm_simps)
  then have "(!) ?xs ` set ?is = set ?xs" by (auto simp: in_set_conv_nth)
  with props have "fst ` set clients = multiKey ` set ?xs" by simp
  then have "card (set (map fst clients)) = card (set (map multiKey ?xs))" by simp
  with dk distinct_multiKeys [OF assms(1)] show "length clients = length addrs"
    by (metis distinct_card length_indexAddresses length_map)
qed

lemma fold_update_entries:
  "distinct (map fst es) \<Longrightarrow> \<forall>e\<in>set es. fst e \<notin> fst ` set m \<Longrightarrow>
     fold (\<lambda>(k, v). AList.update k v) es m = m @ es"
proof (induction es arbitrary: m)
  case Nil
  then show ?case by simp
next
  case (Cons e es)
  have "\<forall>e'\<in>set es. fst e' \<notin> fst ` set (m @ [e])"
  proof
    fix e' assume "e' \<in> set es"
    with Cons.prems show "fst e' \<notin> fst ` set (m @ [e])" by (auto simp: image_iff)
  qed
  with Cons.prems(1) have "fold (\<lambda>(k, v). AList.update k v) es (m @ [e]) = (m @ [e]) @ es"
    by (intro Cons.IH) auto
  with Cons.prems show ?case by (cases e) (simp add: update_append)
qed

lemma mapEntries_keys:
  "distinct_keys m \<Longrightarrow> perm_list ord \<Longrightarrow> distinct_keys (mapEntries ord m)"
  by (metis mset_eq_imp_distinct_iff mset_map mset_mapEntries)

lemma rebuilt_entries:
  assumes "distinct_keys m" and "perm_list ord"
  shows "fold (\<lambda>(k, v). AList.update k v) (mapEntries ord m) [] = mapEntries ord m"
  using fold_update_entries [of "mapEntries ord m" "[]"] mapEntries_keys [OF assms] by simp

text \<open>
  All attempted clients are returned, under their keys, when one of them is connected;
  otherwise none is, and all are scheduled for disconnection.
\<close>

lemma multipleClients_cases:
  assumes "ext_ok E" and "attempted E addrs c = (c1, clients)"
  shows "multipleClients E addrs c =
     (let res = mapEntries (rangeOrder E) clients
      in if \<exists>e\<in>set clients. isConnectionOpen E (trace c1) (snd e)
         then (res, c1\<lparr>multiConnRevision := multiConnRevision c + 1\<rparr>)
         else ([], c1\<lparr>goroutines := goroutines c1 @ [GoDisconnectAll (mapValues (valuesOrder E) res)]\<rparr>))"
proof -
  note props = attempted_props [OF assms]
  obtain rs where run: "sliceCalls (concOrder E) None (multiAttempt E (multiConnRevision c))
      (indexAddresses E addrs) (c, []) = (rs, c1, clients)"
    using assms(2) by (auto simp: attempted_def prod_eq_iff)
  have "mset (mapEntries (rangeOrder E) clients) = mset clients"
    using props(2) assms(1) by (simp add: perm_simps)
  then have "clients \<noteq> [] \<Longrightarrow> mapEntries (rangeOrder E) clients \<noteq> []" by auto
  with run show ?thesis
    using rebuilt_entries [OF props(2)] ext_okD(5) [OF assms(1)] sameShape_fields(9) [OF props(1)]
    by (cases "clients = []") (simp_all add: multipleClients_def Let_def)
qed

lemma wfClient_multipleClients:
  assumes "ext_ok E" and "wfClient c" and "multipleClients E addrs c = (clients, c')"
  shows "wfClient c'" "distinct_keys clients" "mqttClients c' = mqttClients c"
    "states c' = states (fst (attempted E addrs c))"
proof -
  obtain c1 cl where att: "attempted E addrs c = (c1, cl)" by (cases "attempted E addrs c")
  note props = attempted_props [OF assms(1) att]
  have "wfClient c1" using sameShape_wfClient [OF props(1) assms(2)] .
  moreover have "distinct_keys (mapEntries (rangeOrder E) cl)"
    using mapEntries_keys [OF props(2)] assms(1) by simp
  moreover have "mqttClients c1 = mqttClients c" using sameShape_fields(4) [OF props(1)] .
  ultimately show "wfClient c'" "distinct_keys clients" "mqttClients c' = mqttClients c"
    "states c' = states (fst (attempted E addrs c))"
    using assms(3) unfolding multipleClients_cases [OF assms(1) att]
    by (auto simp: Let_def wfClient_def att split: if_splits)
qed

lemma wfClient_reloadClients:
  assumes "ext_ok E" and "wfClient c" and "distinct_keys clients"
  shows "wfClient (reloadClients E clients c)"
proof -
  let ?es = "mapEntries (rangeOrder E) clients"
  have "wfClient (fold (\<lambda>(k, m). addConnection k m) ?es (c\<lparr>mqttClients := [], orderedClients := []\<rparr>))"
    using mapEntries_keys [OF assms(3)] assms(1) wfClient_clear [OF assms(2)]
    by (intro wfClient_addConnections) auto
  then have "wfClient (reloadClients E clients c)" if "clients \<noteq> []"
    using that by (auto simp: reloadClients_def Let_def wfClient_def)
  moreover have "wfClient (reloadClients E clients c)" if "clients = []"
    using that assms(2) by (simp add: reloadClients_def)
  ultimately show ?thesis by blast
qed

section \<open>Every operation keeps the invariant\<close>

lemma wfClient_fanOut:
  assumes "ext_ok E" and "\<And>x s. wfClient s \<Longrightarrow> wfClient (snd (f x s))" and "wfClient c"
  shows "wfClient (snd (fanOut E f xs c))"
  unfolding snd_fanOut by (rule sliceCalls_state) (use assms in auto)

lemma wfClient_resumeSubscriptions:
  assumes "okSubscriber (subscriber H)" and "ext_ok E" and "wfClient c"
  shows "wfClient (snd (resumeSubscriptions H E c))"
  using assms unfolding resumeSubscriptions_def okSubscriber_def keeps_def
  by (auto intro!: wfClient_fanOut)

lemma newClientLoop_sameShape:
  "newClientLoop fuel E addrs attempt c = (r, c') \<Longrightarrow> sameShape c c'"
proof (induction fuel arbitrary: attempt c)
  case 0
  then show ?case by simp
next
  case (Suc fuel)
  let ?a = "addrs ! (attempt mod length addrs)"
  let ?o = "(options c)\<lparr>brokerAddress := TCPAddress_text (Host ?a) (Port ?a)\<rparr>"
  obtain cc c1 where new: "newMqttClient E ?o [] c = (cc, c1)" by (cases "newMqttClient E ?o [] c")
  obtain t c2 where con: "pahoCall E (MConnect cc) c1 = (t, c2)" by (cases "pahoCall E (MConnect cc) c1")
  have "sameShape c c1" using newMqttClient_sameShape [OF new] .
  moreover have "sameShape c1 c2" using con by (auto simp: pahoCall_def Let_def)
  ultimately have s2: "sameShape c c2" by (rule sameShape_trans)
  show ?case
  proof (cases "\<not> tokWaitTimeout t (connectTimeout (options c2)) \<or> tokError t \<noteq> None")
    case True
    with Suc.prems new con have "newClientLoop fuel E addrs (attempt + 1) c2 = (r, c')"
      by (auto simp: Let_def split: if_splits)
    then have "sameShape c2 c'" by (rule Suc.IH)
    with s2 show ?thesis by (rule sameShape_trans)
  next
    case False
    with Suc.prems new con s2 show ?thesis by (simp add: Let_def)
  qed
qed

lemma wfClient_reloadClient: "wfClient c \<Longrightarrow> wfClient (reloadClient cc c)"
  by (simp add: reloadClient_def wfClient_def)

lemma wfClient_attemptConnections:
  assumes "okSubscriber (subscriber H)" and "ext_ok E" and "wfClient c"
  shows "wfClient (snd (attemptConnections H E addrs c))"
proof -
  have "wfClient (snd (attemptMultiConnections H E addrs c))"
    using wfClient_multipleClients [OF assms(2,3)] assms(1,2)
    by (auto simp: attemptMultiConnections_def wfClient_resumeSubscriptions wfClient_reloadClients
        split: prod.splits)
  moreover have "wfClient (snd (attemptSingleConnection H E addrs c))"
  proof -
    obtain r c' where loop: "newClientLoop (retryFuel E) E addrs 0 c = (r, c')"
      by (cases "newClientLoop (retryFuel E) E addrs 0 c")
    have "wfClient c'" using sameShape_wfClient [OF newClientLoop_sameShape [OF loop] assms(3)] .
    with loop assms show ?thesis
      by (auto simp: attemptSingleConnection_def wfClient_resumeSubscriptions wfClient_reloadClient
          split: option.splits)
  qed
  ultimately show ?thesis by (simp add: attemptConnections_def)
qed

lemma wfClient_handleInfoEmitter: "wfClient c \<Longrightarrow> wfClient (handleInfoEmitter c)"
  by (simp add: handleInfoEmitter_def wfClient_def)

lemma wfClient_runConnect: "wfClient c \<Longrightarrow> wfClient (snd (runConnect E c))"
proof -
  assume "wfClient c"
  let ?r = "execute E context_Background (\<lambda>cc. onClient cc (connectOne E)) execAll c"
  have "sameShape c (snd ?r)"
    unfolding execOpt_defs
    by (rule execConst.run_rel)
      (auto simp: onClient_def connectOne_def pahoCall_def Let_def split: option.splits)
  with \<open>wfClient c\<close> have "wfClient (snd ?r)" using sameShape_wfClient by blast
  then show ?thesis
    by (auto simp: runConnect_def wfClient_handleInfoEmitter
        split: prod.splits outcome.splits option.splits)
qed

lemma wfClient_Start:
  assumes "okSubscriber (subscriber H)" and "ext_ok E" and "wfClient c"
  shows "wfClient (snd (Start H E upd c))"
proof -
  have goro: "wfClient s \<Longrightarrow> wfClient (s\<lparr>goroutines := g\<rparr>)" for s :: "('a, 'b) client_scheme" and g
    by (simp add: wfClient_def)
  have "wfClient (snd (runResolver H E upd c))"
    using wfClient_attemptConnections [OF assms] assms(3)
    by (auto simp: runResolver_def Let_def goro wfClient_handleInfoEmitter
        split: option.splits prod.splits outcome.splits)
      (metis goro snd_conv wfClient_handleInfoEmitter)+
  with wfClient_runConnect [OF assms(3)] show ?thesis by (simp add: Start_def)
qed

lemma runGoroutine_sameShape: "sameShape c (runGoroutine E g c)"
proof (cases g)
  case (GoDisconnectAll cls)
  have "sameShape c (snd (fanOut E disconnectOne cls c))"
    by (rule fanOut_rel) (auto simp: disconnectOne_def intro: sameShape_trans)
  with GoDisconnectAll show ?thesis by (simp add: disconnectAll_def snd_fanOut)
qed (auto simp: disconnectOne_def)

lemma removeStoredSubsCalled_sameShape: "sameShape c (removeStoredSubsCalled E cc c)"
proof -
  have "sameShape c (fold (\<lambda>(_, a) c. if isClient (states c a) = cc
          then updState a (\<lambda>s. s\<lparr>subsCalled := set_Delete E (subsCalled s) (set_Values E (subsCalled s))\<rparr>) c
          else c) es c')" if "sameShape c c'" for es :: "(string \<times> addr) list" and c'
    using that by (induction es arbitrary: c') (auto simp: sameShape_updState)
  then show ?thesis by (simp add: removeStoredSubsCalled_def)
qed

lemma connectionLostHandler_sameShape: "sameShape c (connectionLostHandler E cc e c)"
  using removeStoredSubsCalled_sameShape [of c E cc] sameShape_trans [OF _ sameShape_trace]
  by (auto simp: connectionLostHandler_def Let_def split: option.splits)

lemma reconnectHandler_sameShape: "sameShape c (reconnectHandler c)"
  by (auto simp: reconnectHandler_def split: option.splits)

lemma onConnect_sameShape: "sameShape c (onConnect c)"
  by (auto simp: onConnect_def split: option.splits)

section \<open>The step relation\<close>

text \<open>
  One step is one call of the application, one update of the resolver, one goroutine that
  runs, or one event of a connection, in any environment that behaves as documented and
  through any handlers that keep the invariant.
\<close>

inductive clientStep :: "'v client \<Rightarrow> 'v client \<Rightarrow> bool" where
  step_Publish: "okHandlers H \<Longrightarrow> ext_ok E \<Longrightarrow> clientStep c (snd (Publish H E ctx t m os c))"
| step_Subscribe: "okHandlers H \<Longrightarrow> ext_ok E \<Longrightarrow> clientStep c (snd (Subscribe H E ctx t cb os c))"
| step_SubscribeMultiple:
    "okHandlers H \<Longrightarrow> ext_ok E \<Longrightarrow> clientStep c (snd (SubscribeMultiple H E ctx tq cb c))"
| step_Unsubscribe: "okHandlers H \<Longrightarrow> ext_ok E \<Longrightarrow> clientStep c (snd (Unsubscribe H E ctx ts c))"
| step_Start: "okHandlers H \<Longrightarrow> ext_ok E \<Longrightarrow> clientStep c (snd (Start H E upd c))"
| step_Stop: "okHandlers H \<Longrightarrow> ext_ok E \<Longrightarrow> clientStep c (Stop H E c)"
| step_Update: "okHandlers H \<Longrightarrow> ext_ok E \<Longrightarrow> GoWatchAddressUpdates \<in> set (goroutines c) \<Longrightarrow>
    clientStep c (snd (attemptConnections H E addrs c))"
| step_Goroutine: "ext_ok E \<Longrightarrow> g \<in> set (goroutines c) \<Longrightarrow>
    clientStep c (runGoroutine E g (c\<lparr>goroutines := remove1 g (goroutines c)\<rparr>))"
| step_ConnectionLost: "ext_ok E \<Longrightarrow> clientStep c (connectionLostHandler E cc e c)"
| step_Reconnect: "clientStep c (reconnectHandler c)"
| step_OnConnect: "clientStep c (onConnect c)"

definition constructed :: "'v client \<Rightarrow> bool" where
  "constructed c \<longleftrightarrow> (\<exists>E je jd opts. NewClient E je jd opts = Inr c)"

lemma wfClient_step: "clientStep c c' \<Longrightarrow> wfClient c \<Longrightarrow> wfClient c'"
proof (induction c c' rule: clientStep.induct)
  case (step_Goroutine E g c)
  have "wfClient (c\<lparr>goroutines := remove1 g (goroutines c)\<rparr>)"
    using step_Goroutine.prems by (simp add: wfClient_def)
  then show ?case using sameShape_wfClient [OF runGoroutine_sameShape] by blast
next
  case (step_Publish H E ctx t m os c)
  then show ?case by (auto simp: Publish_def okHandlers_def okPublisher_def intro: keepsD)
next
  case (step_Stop H E c)
  then show ?case by (auto simp: Stop_def okHandlers_def okStopper_def intro: keepsD)
qed (auto simp: okHandlers_def wfClient_Subscribe wfClient_SubscribeMultiple wfClient_Unsubscribe
    wfClient_Start wfClient_attemptConnections
    intro: sameShape_wfClient [OF connectionLostHandler_sameShape]
      sameShape_wfClient [OF reconnectHandler_sameShape] sameShape_wfClient [OF onConnect_sameShape])

interpretation cl: step_system constructed clientStep wfClient
  by unfold_locales (auto simp: constructed_def wfClient_NewClient wfClient_step)

end
