(* ===== verification/Reference.thy ===== *)
theory Reference
  imports Reach "HOL-Library.Char_ord" "HOL-Library.List_Lexorder"
begin

text \<open>
  A concrete environment, in which the third-party functions behave as documented and every
  request succeeds, and concrete clients constructed in it: one connection, a pool of two,
  and a client that follows a resolver. They show that the hypotheses of the properties hold
  together.
\<close>

section \<open>A well-behaved environment\<close>

definition refMqttOptions :: mqttClientOptions where
  "refMqttOptions =
     \<lparr>mqClientID = [], mqUsername = [], mqPassword = [], mqCredentialsProvider = None,
      mqConnectRetry = False, mqConnectRetryInterval = 0, mqServers = [], mqResumeSubs = False,
      mqTLSConfig = None, mqAutoReconnect = False, mqCleanSession = False, mqOrder = False,
      mqKeepAlive = 0, mqConnectTimeout = 0, mqMaxReconnectInterval = 0, mqWriteTimeout = 0,
      mqLogLevel = PahoLogDefault, mqAckTimeout = 0\<rparr>"

text \<open>Every call succeeds, every client is connected, handles are numbered by the trace.\<close>

definition refExt :: ext where
  "refExt =
     \<lparr>errs = refErrlib, set_Has = (\<lambda>S x. x \<in> S), set_Add = (\<lambda>S x. insert x S),
      set_Delete = (\<lambda>S xs. S - set xs), set_Values = sorted_list_of_set,
      concOrder = (\<lambda>n. [0..<n]), mapOrder = (\<lambda>n. [0..<n]), valuesOrder = (\<lambda>xs. xs),
      rangeOrder = (\<lambda>xs. xs), rand_Intn = (\<lambda>n. 0), newClientFunc = (\<lambda>tr o1. length tr),
      newClientOptions = refMqttOptions,
      respond = (\<lambda>tr. \<lparr>tokWaitTimeout = (\<lambda>d. True), tokCtxDone = None, tokError = None\<rparr>),
      isConnectionOpen = (\<lambda>tr m. True), readerClientID = (\<lambda>m. Some (dec m)),
      os_Hostname = Some ''host'', fetchCredentials = (\<lambda>tr f. Inl (ErrorString ''none'')),
      retryFuel = 1\<rparr>"

lemma ext_ok_refExt [simp]: "ext_ok refExt"
  by (simp add: ext_ok_def setlib_ok_def order_ok_def refExt_def perm_order_def perm_list_def)

section \<open>Concrete clients\<close>

text \<open>Values are strings; the encoder writes one byte per character, the decoder fails.\<close>

definition refEncoder :: "string Encoder" where
  "refEncoder v = (\<lambda>w. (None, w @ map of_char v))"

definition refJson :: "reader \<Rightarrow> string Decoder" where
  "refJson r = (\<lambda>k t. (Some (ErrorString ''EOF''), t))"

definition refNew :: "string ClientOption list \<Rightarrow> string client" where
  "refNew opts = (case NewClient refExt refEncoder refJson opts of
       Inr c \<Rightarrow> c | Inl _ \<Rightarrow> freshClient (defaultClientOptions refEncoder refJson))"

definition refPool :: "string client" where
  "refPool = refNew [WithClientID ''app'', WithAddress ''localhost'' 1883, WithPoolSize 2]"

definition refSingle :: "string client" where
  "refSingle = refNew [WithAddress ''localhost'' 1883]"

definition refMulti :: "string client" where
  "refMulti = refNew [WithResolver (Some 7), UseMultiConnectionMode]"

lemmas reference_defs = refNew_def NewClient_def refExt_def refMqttOptions_def refErrlib_def
  applyOptions_def option_setter_defs WithPoolSize_def UseMultiConnectionMode_def
  defaultClientOptions_def checkOptions_def emitterSet_def emitterIntervalOf_def
  freshClient_def initializeConnectionPool_def poolStep_def addConnection_def newMqttClient_def
  TCPAddress_text_def DefaultEncoderFunc_def

lemma constructed_refNew:
  "NewClient refExt refEncoder refJson opts = Inr c \<Longrightarrow> constructed (refNew opts)"
  by (auto simp: refNew_def constructed_def)

lemma dec_small [simp]: "dec 0 = ''0''" "dec 1 = ''1''" "dec (Suc 0) = ''1''" "dec 1883 = ''1883''"
  by code_simp+

lemma refPool_fields [simp]:
  "mqttClients refPool = [(''app-0'', 0), (''app-1'', 1)]" "orderedClients refPool = [0, 1]"
  "rrCounter refPool = 0" "mqttClient refPool = None" "subscriptions refPool = []"
  "states refPool 0 = \<lparr>subsCalled = {}, isClient = 0\<rparr>"
  "states refPool (Suc 0) = \<lparr>subsCalled = {}, isClient = 1\<rparr>"
  "poolEnabled (options refPool)" "\<not> multiConnectionMode (options refPool)"
  "newEncoder (options refPool) ctx = refEncoder" "goroutines refPool = []"
  "infoEmitterCfg (options refPool) = None" "resolver (options refPool) = None"
  "sharedSubscriptionPredicate (options refPool) = defaultSharedSubscriptionPredicate"
  unfolding refPool_def by (simp_all add: reference_defs Let_def upt_rec)

lemma refSingle_fields [simp]:
  "mqttClients refSingle = []" "orderedClients refSingle = []" "mqttClient refSingle = Some 0"
  "subscriptions refSingle = []" "\<not> poolEnabled (options refSingle)"
  "\<not> multiConnectionMode (options refSingle)" "goroutines refSingle = []"
  "newEncoder (options refSingle) ctx = refEncoder"
  "infoEmitterCfg (options refSingle) = None" "resolver (options refSingle) = None"
  unfolding refSingle_def by (simp_all add: reference_defs Let_def)

lemma refMulti_fields [simp]:
  "mqttClients refMulti = []" "orderedClients refMulti = []" "mqttClient refMulti = None"
  "subscriptions refMulti = []" "\<not> poolEnabled (options refMulti)"
  "multiConnectionMode (options refMulti)" "goroutines refMulti = []" "nextAddr refMulti = 0"
  "newEncoder (options refMulti) ctx = refEncoder"
  "infoEmitterCfg (options refMulti) = None" "resolver (options refMulti) = Some 7"
  "trace refMulti = []" "multiConnRevision refMulti = 0"
  unfolding refMulti_def by (simp_all add: reference_defs Let_def)

lemma constructed_reference [simp]: "constructed refPool" "constructed refSingle" "constructed refMulti"
  unfolding refPool_def refSingle_def refMulti_def
  by (rule constructed_refNew; simp add: reference_defs Let_def upt_rec)+

lemma wfClient_reference [simp]: "wfClient refPool" "wfClient refSingle" "wfClient refMulti"
  by (simp_all add: cl.inv_start)

end
