(* ===== verification/Publishing.thy ===== *)
theory Publishing
  imports Reference
begin

text \<open>
  What publishing does, over the dispatch of \<^verbatim>\<open>exec.go\<close>: which connection a message goes to,
  that the rotation over the connections is fair, and what happens at the ends of its range
  (an empty rotation, a counter past the signed range).
\<close>

section \<open>Dispatch to several connections\<close>

abbreviation multiMode :: "('v, 'x) client_scheme \<Rightarrow> bool" where
  "multiMode c \<equiv> poolEnabled (options c) \<or> multiConnectionMode (options c)"

lemma wfClient_nonempty: "wfClient c \<Longrightarrow> mqttClients c \<noteq> [] \<longleftrightarrow> orderedClients c \<noteq> []"
  by (metis length_0_conv wfClient_length)

lemma execute_multi:
  "multiMode c \<Longrightarrow> mqttClients c \<noteq> [] \<Longrightarrow> execute E ctx f eo c = execMultiConn E ctx f eo c"
  by (simp add: execute_def)

lemma execute_roundRobin:
  assumes "multiMode c" and "mqttClients c \<noteq> []" and "orderedClients c \<noteq> []"
    and "unat (rrCounter c) < 2 ^ 63"
  shows "execute E ctx f execOneRoundRobin c =
     execOne E ctx f (orderedClients c ! (unat (rrCounter c) mod length (orderedClients c)))
       (c\<lparr>rrCounter := rrCounter c + 1\<rparr>)"
  using assms rr_index [OF assms(4,3)]
  by (simp add: execute_multi execMultiConn_def execOpt_defs atomicCounter_next_def Let_def)

lemma unat_counter_step: "unat (r :: 64 word) < 2 ^ 63 \<Longrightarrow> unat (r + 1) = unat r + 1"
  by (simp add: unat_word_ariths)

text \<open>
  The events of one publication: the callback of the context, if any, then the call on the
  connection's client.
\<close>

definition publishEvents ::
  "ext \<Rightarrow> gocontext \<Rightarrow> mclient \<Rightarrow> string \<Rightarrow> Option list \<Rightarrow> bytes \<Rightarrow> event list" where
  "publishEvents E ctx m topic opts buf =
     (case invokeClientIDCallback ctx (clientIDMapper E (Some m)) of
        Some (cb, i) \<Rightarrow> [ClientIDCallback cb i] | None \<Rightarrow> []) @
     [MPublish m topic (qos (composeOptions opts)) (retained (composeOptions opts)) buf]"

lemma execOne_publish:
  "execOne E ctx (pahoRequest E ctx te
       (\<lambda>m. MPublish m topic (qos (composeOptions opts)) (retained (composeOptions opts)) buf)) a c =
     (let tr = trace c @ publishEvents E ctx (isClient (states c a)) topic opts buf
      in (Return (handleToken (options c) ctx (respond E tr) te), c\<lparr>trace := tr\<rparr>))"
  by (auto simp: execOne_def Let_def callClientIDCallback_def publishEvents_def split: option.split)

lemma publish_multi:
  assumes "wfClient c" and "multiMode c" and "orderedClients c \<noteq> []"
    and "unat (rrCounter c) < 2 ^ 63" and "newEncoder (options c) ctx msg [] = (None, buf)"
  shows "publishHandler E ctx topic msg opts c =
     (let a = orderedClients c ! (unat (rrCounter c) mod length (orderedClients c));
          tr = trace c @ publishEvents E ctx (isClient (states c a)) topic opts buf
      in (Return (handleToken (options c) ctx (respond E tr) ErrPublishTimeout),
          c\<lparr>rrCounter := rrCounter c + 1, trace := tr\<rparr>))"
  using assms wfClient_nonempty [OF assms(1)]
  by (simp add: publishHandler_def Let_def execute_roundRobin execOne_publish)

section \<open>Fairness of the rotation\<close>

definition publishMany ::
  "ext \<Rightarrow> gocontext \<Rightarrow> (string \<times> 'v \<times> Option list) list \<Rightarrow> ('v, 'x) client_scheme \<Rightarrow>
   ('v, 'x) client_scheme" where
  "publishMany E ctx ms c = fold (\<lambda>(t, m, os) c. snd (publishHandler E ctx t m os c)) ms c"

text \<open>The clients that publications were made on, in the order of the trace.\<close>

fun publishedOn :: "event list \<Rightarrow> mclient list" where
  "publishedOn [] = []"
| "publishedOn (MPublish m _ _ _ _ # es) = m # publishedOn es"
| "publishedOn (_ # es) = publishedOn es"

lemma publishedOn_append [simp]: "publishedOn (es @ fs) = publishedOn es @ publishedOn fs"
  by (induction es rule: publishedOn.induct) auto

lemma publishedOn_publishEvents [simp]:
  "publishedOn (publishEvents E ctx m topic opts buf) = [m]"
  by (auto simp: publishEvents_def split: option.split)

lemma publishMany_targets:
  assumes "wfClient c" and "multiMode c" and "orderedClients c \<noteq> []"
    and "unat (rrCounter c) + length ms \<le> 2 ^ 63"
    and "\<And>m. \<exists>buf. newEncoder (options c) ctx m [] = (None, buf)"
  shows "publishedOn (trace (publishMany E ctx ms c)) = publishedOn (trace c) @
     map (\<lambda>i. isClient (states c
            (orderedClients c ! ((unat (rrCounter c) + i) mod length (orderedClients c)))))
       [0..<length ms]"
  using assms
proof (induction ms arbitrary: c)
  case Nil
  then show ?case by (simp add: publishMany_def)
next
  case (Cons e ms)
  obtain t m os where e: "e = (t, m, os)" by (cases e)
  obtain buf where buf: "newEncoder (options c) ctx m [] = (None, buf)" using Cons.prems(5) by blast
  let ?n = "length (orderedClients c)"
  let ?m = "isClient (states c (orderedClients c ! (unat (rrCounter c) mod ?n)))"
  let ?c = "c\<lparr>rrCounter := rrCounter c + 1, trace := trace c @ publishEvents E ctx ?m t os buf\<rparr>"
  have r: "unat (rrCounter c) < 2 ^ 63" using Cons.prems(4) by simp
  then have step: "snd (publishHandler E ctx t m os c) = ?c"
    using publish_multi [OF Cons.prems(1-3) r buf] by (simp add: Let_def)
  have "publishedOn (trace (publishMany E ctx ms ?c)) = publishedOn (trace ?c) @
     map (\<lambda>i. isClient (states ?c (orderedClients ?c ! ((unat (rrCounter ?c) + i) mod length (orderedClients ?c)))))
       [0..<length ms]"
    using Cons.prems r
    by (intro Cons.IH) (simp_all add: wfClient_def unat_counter_step)
  moreover have "map (\<lambda>i. isClient (states c (orderedClients c ! ((unat (rrCounter c) + i) mod ?n))))
        [0..<length (e # ms)] =
      ?m # map (\<lambda>i. isClient (states c (orderedClients c ! ((unat (rrCounter c) + 1 + i) mod ?n))))
        [0..<length ms]"
    by (simp add: upt_conv_Cons map_Suc_upt [symmetric] comp_def del: upt_Suc)
  ultimately show ?case
    using step r by (simp add: publishMany_def e unat_counter_step)
qed

lemma mset_rotation:
  assumes "xs \<noteq> []"
  shows "mset (map (\<lambda>i. xs ! ((r + i) mod length xs)) [0..<length xs]) = mset xs"
proof -
  let ?n = "length xs"
  have "map (\<lambda>i. xs ! ((r + i) mod ?n)) [0..<?n] = rotate r xs"
    by (rule nth_equalityI) (simp_all add: nth_rotate)
  moreover have "mset (rotate r xs) = mset xs"
    by (metis add.commute append_take_drop_id mset_append rotate_drop_take)
  ultimately show ?thesis by simp
qed

lemma mset_rounds:
  assumes "xs \<noteq> []"
  shows "mset (map (\<lambda>i. xs ! ((r + i) mod length xs)) [0..<k * length xs]) = repeat_mset k (mset xs)"
proof (induction k)
  case 0
  show ?case by simp
next
  case (Suc k)
  let ?n = "length xs"
  have split: "[0..<Suc k * ?n] = [0..<k * ?n] @ map ((+) (k * ?n)) [0..<?n]"
    using upt_add_eq_append [of 0 "k * ?n" ?n] map_add_upt [of "k * ?n" ?n]
    by (simp add: add.commute [of _ "k * ?n"] add.commute [of "length xs"])
  have shift: "map (\<lambda>i. xs ! ((r + i) mod ?n)) (map ((+) (k * ?n)) [0..<?n]) =
      map (\<lambda>i. xs ! ((r + i) mod ?n)) [0..<?n]"
    by (simp add: add.left_commute [of r])
  show ?case
    unfolding split map_append mset_append shift Suc mset_rotation [OF assms] by simp
qed

section \<open>The ends of the range\<close>

lemma unat_lt_range: "unat (n :: 64 word) < 2 ^ 64"
  using unsigned_less [of n, where ?'a = nat] by simp

lemma sint_negative:
  fixes n :: "64 word"
  assumes "2 ^ 63 \<le> unat n"
  shows "sint n = - int (2 ^ 64 - unat n)"
proof -
  have lt: "uint n < 2 ^ 64" using uint_lt2p [of n] by simp
  have "int (2 ^ 63) \<le> int (unat n)" using assms by (rule of_nat_le_iff [THEN iffD2])
  then have ge: "2 ^ 63 \<le> uint n" by simp
  have "(uint n + 2 ^ 63 - 2 ^ 64) mod 2 ^ 64 = uint n + 2 ^ 63 - 2 ^ 64"
    using lt ge by (intro mod_pos_pos_trivial) simp_all
  then have "(uint n + 2 ^ 63) mod 2 ^ 64 = uint n + 2 ^ 63 - 2 ^ 64"
    by (simp only: minus_mod_self2)
  then have "signed_take_bit 63 (uint n) = uint n - 2 ^ 64"
    by (simp add: signed_take_bit_eq_take_bit_shift take_bit_eq_mod)
  moreover have "int (2 ^ 64 - unat n) = int (2 ^ 64) - int (unat n)"
    by (rule of_nat_diff [OF less_imp_le [OF unat_lt_range]])
  ultimately show ?thesis by (simp add: sint_uint)
qed

lemma rr_index_negative:
  fixes n :: "64 word"
  assumes "2 ^ 63 \<le> unat n" and "xs \<noteq> []"
  shows "sliceIndex xs (sint n smod int (length xs)) =
     (if length xs dvd 2 ^ 64 - unat n then Some (xs ! 0) else None)"
proof -
  let ?k = "2 ^ 64 - unat n"
  have "(- int k) smod int l = - int (k mod l)" for k l
    by (cases "k = 0") (simp_all add: smod_int_alt_def zmod_int)
  then have "sint n smod int (length xs) = - int (?k mod length xs)"
    unfolding sint_negative [OF assms(1)] .
  moreover have "?k mod length xs = 0 \<longleftrightarrow> length xs dvd ?k" by (simp add: dvd_eq_mod_eq_0)
  ultimately show ?thesis using assms(2) by (auto simp: sliceIndex_def)
qed

lemma newHandlers_publisher [simp]: "publisher newHandlers = publishHandler"
  by (simp add: newHandlers_def)

section \<open>Properties\<close>

text \<open>
  C1: With several connections, a publication encodes its message, goes to the connection
  that is next in the rotation and to no other, with the quality of service and the retained
  flag of its options, advances the rotation by one, and returns what the token of that one
  call gives.
\<close>

theorem publish_round_robin:
  assumes "wfClient c" and "multiMode c" and "orderedClients c \<noteq> []"
    and "unat (rrCounter c) < 2 ^ 63" and "newEncoder (options c) ctx msg [] = (None, buf)"
  shows "Publish newHandlers E ctx topic msg opts c =
     (let a = orderedClients c ! (unat (rrCounter c) mod length (orderedClients c));
          tr = trace c @ publishEvents E ctx (isClient (states c a)) topic opts buf
      in (Return (handleToken (options c) ctx (respond E tr) ErrPublishTimeout),
          c\<lparr>rrCounter := rrCounter c + 1, trace := tr\<rparr>))"
  using publish_multi [OF assms] by (simp add: Publish_def)

theorem publish_round_robin_witness:
  "Publish newHandlers refExt context_Background ''t'' ''x'' [QOSOption QOSOne] refPool =
     (Return None, refPool\<lparr>rrCounter := 1,
        trace := trace refPool @ [MPublish 0 ''t'' 1 False [120]]\<rparr>)"
  using publish_round_robin [of refPool context_Background "''x''" "[120]" refExt "''t''" "[QOSOption QOSOne]"]
  by (simp add: refEncoder_def publishEvents_def invokeClientIDCallback_def context_Background_def
      handleToken_def waitForToken_def refExt_def composeOptions_def QOSOne_def Let_def
      of_char_def)

text \<open>
  C2: The rotation is fair: publishing \<open>k\<close> times the number of connections publishes exactly
  \<open>k\<close> messages on each connection, whatever the brokers answer.
\<close>

theorem publish_fair:
  assumes "wfClient c" and "multiMode c" and "orderedClients c \<noteq> []"
    and "unat (rrCounter c) + length ms \<le> 2 ^ 63"
    and "length ms = k * length (orderedClients c)"
    and "\<And>m. \<exists>buf. newEncoder (options c) ctx m [] = (None, buf)"
  shows "mset (publishedOn (trace (publishMany E ctx ms c))) =
     mset (publishedOn (trace c)) +
     repeat_mset k (mset (map (\<lambda>a. isClient (states c a)) (orderedClients c)))"
proof -
  let ?xs = "map (\<lambda>a. isClient (states c a)) (orderedClients c)" and ?r = "unat (rrCounter c)"
  have "map (\<lambda>i. isClient (states c (orderedClients c ! ((?r + i) mod length (orderedClients c)))))
      [0..<length ms] = map (\<lambda>i. ?xs ! ((?r + i) mod length ?xs)) [0..<k * length ?xs]"
    using assms(3,5) by simp
  moreover have "mset \<dots> = repeat_mset k (mset ?xs)"
    by (rule mset_rounds) (use assms(3) in simp)
  ultimately show ?thesis
    using publishMany_targets [OF assms(1-4,6)] by simp
qed

theorem publish_fair_witness:
  "mset (publishedOn (trace (publishMany refExt context_Background
      (replicate 6 (''t'', ''x'', [])) refPool))) =
     mset (publishedOn (trace refPool)) + repeat_mset 3 {#0, 1#}"
  using publish_fair [of refPool "replicate 6 (''t'', ''x'', [])" 3 context_Background refExt]
  by (simp add: refEncoder_def)

text \<open>
  C8: Past the signed range of the counter the index \<^verbatim>\<open>int(c.rrCounter.next()) % len(ccs)\<close> is
  negative or zero: every publication panics with an index out of range, unless the number
  of connections divides what is left of the unsigned range.
\<close>

theorem publish_counter_overflow:
  assumes "wfClient c" and "multiMode c" and "orderedClients c \<noteq> []"
    and "2 ^ 63 \<le> unat (rrCounter c)" and "newEncoder (options c) ctx msg [] = (None, buf)"
  shows "fst (Publish newHandlers E ctx topic msg opts c) = Panic IndexOutOfRange \<longleftrightarrow>
     \<not> length (orderedClients c) dvd 2 ^ 64 - unat (rrCounter c)"
  using assms wfClient_nonempty [OF assms(1)] rr_index_negative [OF assms(4,3)]
  by (simp add: Publish_def publishHandler_def Let_def execute_multi execMultiConn_def
      execOpt_defs atomicCounter_next_def execOne_publish)

theorem publish_counter_overflow_witness:
  "fst (Publish newHandlers refExt context_Background ''t'' ''x'' []
     (refPool\<lparr>rrCounter := 2 ^ 63 + 1\<rparr>)) = Panic IndexOutOfRange"
proof -
  have wf: "wfClient (refPool\<lparr>rrCounter := 2 ^ 63 + 1\<rparr>)"
    by (rule sameShape_wfClient [OF sameShape_rrCounter]) simp
  have "unat (2 ^ 63 + 1 :: 64 word) = 2 ^ 63 + 1" by simp
  then show ?thesis
    using publish_counter_overflow [OF wf, of context_Background "''x''" "[120]" refExt "''t''" "[]"]
    by (simp add: refEncoder_def of_char_def flip: numeral_2_eq_2)
qed

text \<open>
  A message that cannot be encoded, and a client that has no connection, are reported
  to the caller; neither changes the client or reaches a broker.
\<close>

theorem publish_rejected:
  assumes "fst (newEncoder (options c) ctx msg []) \<noteq> None \<or>
      mqttClient c = None \<and> mqttClients c = []"
  shows "Publish newHandlers E ctx topic msg opts c =
     (Return (Some (case fst (newEncoder (options c) ctx msg []) of
         Some e \<Rightarrow> e | None \<Rightarrow> ErrClientNotInitialized)), c)"
  using assms
  by (auto simp: Publish_def publishHandler_def execute_def split: prod.splits option.splits)

theorem publish_rejected_witness:
  "Publish newHandlers refExt context_Background ''t'' ''x'' [] refMulti =
     (Return (Some ErrClientNotInitialized), refMulti)"
  using publish_rejected [of refMulti context_Background "''x''" refExt "''t''" "[]"]
  by (simp add: refEncoder_def)

text \<open>
  With a single connection every publication goes to it.
\<close>

theorem publish_single:
  assumes "mqttClient c = Some m" and "\<not> multiMode c"
    and "newEncoder (options c) ctx msg [] = (None, buf)"
  shows "Publish newHandlers E ctx topic msg opts c =
     (let tr = trace c @ publishEvents E ctx m topic opts buf
      in (Return (handleToken (options c) ctx (respond E tr) ErrPublishTimeout),
          c\<lparr>trace := tr\<rparr>))"
  using assms
  by (auto simp: Publish_def publishHandler_def execute_def Let_def callClientIDCallback_def
      publishEvents_def split: option.split)

theorem publish_single_witness:
  "Publish newHandlers refExt context_Background ''t'' ''x'' [Retained True] refSingle =
     (Return None, refSingle\<lparr>trace := trace refSingle @ [MPublish 0 ''t'' 0 True [120]]\<rparr>)"
  using publish_single [of refSingle 0 context_Background "''x''" "[120]" refExt "''t''" "[Retained True]"]
  by (simp add: refEncoder_def publishEvents_def invokeClientIDCallback_def context_Background_def
      handleToken_def waitForToken_def refExt_def composeOptions_def Let_def of_char_def)

end
