(* ===== verification/Subscribing.thy ===== *)
theory Subscribing
  imports Publishing
begin

text \<open>
  What subscribing and unsubscribing do: which connections are asked, what the connections
  and the registry remember, and what is asked again after a connection was lost or the
  connections were replaced.
\<close>

section \<open>The handlers in a client with several connections\<close>

lemma newHandlers_subscriber [simp]:
  "subscribe (subscriber newHandlers) = subscribeFunc"
  "subscribeMultiple (subscriber newHandlers) = subscribeMultipleFunc"
  "unsubscriber newHandlers = unsubscriberHandler"
  by (simp_all add: newHandlers_def subscriberFuncs_def)

lemma execute_withState:
  assumes "multiMode c" and "mqttClients c \<noteq> []"
  shows "execute E ctx f (ExecOptWithState g) c =
     fanOut E (g f) (mapValues (valuesOrder E) (mqttClients c)) c"
  using assms by (simp add: execute_multi execMultiConn_def)

lemma solid_sentinels [simp]:
  "solid (Some ErrPublishTimeout)" "solid (Some ErrSubscribeTimeout)"
  "solid (Some ErrUnsubscribeTimeout)" "solid (Some ErrSubscribeMultipleTimeout)"
  by (simp_all add: solid_def sentinel_defs)

text \<open>The connections that a shared subscription still has to be made on.\<close>

definition unsubscribedOn :: "string \<Rightarrow> ('v, 'x) client_scheme \<Rightarrow> addr list" where
  "unsubscribedOn topic c = filter (\<lambda>a. topic \<notin> subsCalled (states c a)) (orderedClients c)"

definition subscribedOnAll :: "string \<Rightarrow> ('v, 'x) client_scheme \<Rightarrow> bool" where
  "subscribedOnAll topic c \<longleftrightarrow> (\<forall>a\<in>set (orderedClients c). topic \<in> subsCalled (states c a))"

lemma subscribedOnAll_iff: "subscribedOnAll topic c \<longleftrightarrow> unsubscribedOn topic c = []"
  by (auto simp: subscribedOnAll_def unsubscribedOn_def filter_empty_conv)

text \<open>The fan-out over the connections of a well-formed client, connection by connection.\<close>

context connection_call
begin

lemma fan_clients:
  assumes ok: "ext_ok E" and wf: "wfClient c" and te: "solid (Some te)"
    and run: "fanOut E call (mapValues (valuesOrder E) (mqttClients c)) c = (r, c')"
  obtains tr e where "trace c' = trace c @ tr" "mset tr = mset (requests c (orderedClients c))"
    "onlySubs c c'" "is_Return r"
    "r = Return None \<longleftrightarrow> (\<forall>a\<in>set (orderedClients c). e a = None)"
    "\<And>a. a \<in> set (orderedClients c) \<Longrightarrow> served (options c) (states c a) (Return (e a)) (states c' a)"
    "\<And>a. a \<notin> set (orderedClients c) \<Longrightarrow> states c' a = states c a"
proof -
  let ?xs = "mapValues (valuesOrder E) (mqttClients c)"
  note vals = wfClient_values [OF wf ok]
  obtain es where r: "r = Return (aggregate es)" and len: "length es = length ?xs"
    and sol: "\<forall>e\<in>set es. solid e" and os: "onlySubs c c'"
    and tr: "trace c' = trace c @ requests c (map ((!) ?xs) (concOrder E (length ?xs)))"
    and other: "\<forall>a. a \<notin> set ?xs \<longrightarrow> states c' a = states c a"
    and srv: "\<forall>i<length ?xs. served (options c) (states c (?xs ! i)) (Return (es ! i)) (states c' (?xs ! i))"
    using fan [OF ok vals(1) te, of c] run by auto
  define e where "e a = the (map_of (zip ?xs es) a)" for a
  have e: "e (?xs ! i) = es ! i" if "i < length ?xs" for i
    using that len vals(1) by (simp add: e_def map_of_zip_nth)
  have set: "set (orderedClients c) = (!) ?xs ` {0..<length ?xs}"
    unfolding vals(2) [symmetric] by (auto simp: set_conv_nth)
  have "r = Return None \<longleftrightarrow> (\<forall>i<length ?xs. es ! i = None)"
    using aggregate_None_iff [OF sol] r len by (simp add: all_set_conv_all_nth)
  then have all: "r = Return None \<longleftrightarrow> (\<forall>a\<in>set (orderedClients c). e a = None)"
    unfolding set using e by auto
  have each: "served (options c) (states c a) (Return (e a)) (states c' a)"
    if "a \<in> set (orderedClients c)" for a
    using that srv e unfolding set by force
  show thesis
  proof (rule that [OF tr _ os _ all each])
    show "mset (requests c (map ((!) ?xs) (concOrder E (length ?xs)))) = mset (requests c (orderedClients c))"
      using mset_requests_order [OF ok, of c ?xs] vals(3)
      unfolding requests_def mset_map mset_filter by simp
  qed (use r other vals(2) in auto)
qed

end

lemma if_conj_eq:
  "(P \<Longrightarrow> x = (if Q then y else z)) \<Longrightarrow> (\<not> P \<Longrightarrow> x = z) \<Longrightarrow> x = (if P \<and> Q then y else z)"
  by (cases P) auto

lemma once_served:
  assumes "ext_ok E" and "once.served E ctx te topic o1 s (Return e) s'"
  shows "topic \<in> subsCalled s' \<longleftrightarrow> e = None"
    "s' = (if topic \<in> subsCalled s' then s\<lparr>subsCalled := insert topic (subsCalled s)\<rparr> else s)"
  using assms(2) unfolding once.served_def unfolding ext_okD(7,8) [OF assms(1)]
  by (auto simp: insert_absorb split: if_splits)

lemma once_fan:
  assumes ok: "ext_ok E" and wf: "wfClient c" and te: "solid (Some te)"
    and run: "fanOut E (onceOn E topic (pahoRequest E ctx te mk))
      (mapValues (valuesOrder E) (mqttClients c)) c = (r, c')"
  obtains tr where "trace c' = trace c @ tr"
    "mset tr = mset (map (\<lambda>a. mk (isClient (states c a))) (unsubscribedOn topic c))"
    "is_Return r" "onlySubs c c'" "r = Return None \<longleftrightarrow> subscribedOnAll topic c'"
    "\<And>a. states c' a = (if a \<in> set (orderedClients c) \<and> topic \<in> subsCalled (states c' a)
       then (states c a)\<lparr>subsCalled := insert topic (subsCalled (states c a))\<rparr> else states c a)"
proof -
  obtain tr e where run': "trace c' = trace c @ tr"
      "mset tr = mset (once.requests mk E topic c (orderedClients c))"
      "onlySubs c c'" "is_Return r"
      "r = Return None \<longleftrightarrow> (\<forall>a\<in>set (orderedClients c). e a = None)"
    and srv: "\<And>a. a \<in> set (orderedClients c) \<Longrightarrow>
        once.served E ctx te topic (options c) (states c a) (Return (e a)) (states c' a)"
    and other: "\<And>a. a \<notin> set (orderedClients c) \<Longrightarrow> states c' a = states c a"
    by (rule once.fan_clients [OF ok wf te run]) (rule that)
  note now = once_served [OF ok srv]
  show thesis
  proof (rule that [OF run'(1) _ run'(4,3)])
    show "mset tr = mset (map (\<lambda>a. mk (isClient (states c a))) (unsubscribedOn topic c))"
      using run'(2) unfolding once.requests_def unfolding ext_okD(7) [OF ok] unsubscribedOn_def .
    show "r = Return None \<longleftrightarrow> subscribedOnAll topic c'"
      using run'(5) now(1) onlySubs_fields(5) [OF run'(3)] by (simp add: subscribedOnAll_def)
    show "states c' a = (if a \<in> set (orderedClients c) \<and> topic \<in> subsCalled (states c' a)
        then (states c a)\<lparr>subsCalled := insert topic (subsCalled (states c a))\<rparr> else states c a)" for a
      by (rule if_conj_eq) (fact now(2), fact other)
  qed
qed

lemma subscribeFunc_shared:
  assumes "wfClient c" and "multiMode c" and "orderedClients c \<noteq> []"
    and "sharedSubscriptionPredicate (options c) topic"
  shows "subscribeFunc E ctx topic cb opts c =
     fanOut E (onceOn E topic (pahoRequest E ctx ErrSubscribeTimeout
         (\<lambda>m. MSubscribe m topic (qos (composeOptions opts)) cb)))
       (mapValues (valuesOrder E) (mqttClients c)) c"
  using assms wfClient_nonempty [OF assms(1)]
  by (simp add: subscribeFunc_def Let_def subscribeOnlyOnce_def execute_withState)

lemma unsubscriberHandler_multi:
  assumes "wfClient c" and "multiMode c" and "orderedClients c \<noteq> []"
  shows "unsubscriberHandler E ctx topics c =
     fanOut E (removeOn E topics (pahoRequest E ctx ErrUnsubscribeTimeout (\<lambda>m. MUnsubscribe m topics)))
       (mapValues (valuesOrder E) (mqttClients c)) c"
  using assms wfClient_nonempty [OF assms(1)]
  by (simp add: unsubscriberHandler_def removeSubsFromState_def execute_withState)

text \<open>What \<open>Subscribe\<close> does around its handler.\<close>

lemma Subscribe_eq:
  assumes "subscribeFunc E ctx topic cb opts c = (r, c1)"
  shows "Subscribe newHandlers E ctx topic cb opts c =
     (r, if r = Return None
         then c1\<lparr>subscriptions := AList.update topic
           \<lparr>smTopic = topic, smOptions = opts, smCallback = cb\<rparr> (subscriptions c1)\<rparr>
         else c1)"
  using assms by (auto simp: Subscribe_def split: outcome.split option.split)

lemma Unsubscribe_eq:
  assumes "unsubscriberHandler E ctx topics c = (r, c1)"
  shows "Unsubscribe newHandlers E ctx topics c =
     (r, if r = Return None
         then c1\<lparr>subscriptions := fold AList.delete topics (subscriptions c1)\<rparr> else c1)"
  using assms by (auto simp: Unsubscribe_def split: outcome.split option.split)

lemma subscribedOnAll_registry [simp]:
  "subscribedOnAll topic (c\<lparr>subscriptions := m\<rparr>) = subscribedOnAll topic c"
  by (simp add: subscribedOnAll_def)

lemma okSubscriber_newHandlers: "okSubscriber (subscriber newHandlers)"
  by (rule okHandlers_newHandlers [unfolded okHandlers_def, THEN conjunct2, THEN conjunct1])

lemma subscribeFunc_again:
  assumes "ext_ok E" and "wfClient c" and "multiMode c" and "orderedClients c \<noteq> []"
    and "sharedSubscriptionPredicate (options c) topic" and all: "subscribedOnAll topic c"
  shows "subscribeFunc E ctx topic cb opts c = (Return None, c)"
proof -
  obtain r c2 where run: "subscribeFunc E ctx topic cb opts c = (r, c2)" by fastforce
  obtain tr where c2: "trace c2 = trace c @ tr" "mset tr = {#}" "onlySubs c c2"
      "r = Return None \<longleftrightarrow> subscribedOnAll topic c2"
    and st: "\<And>a. states c2 a = (if a \<in> set (orderedClients c) \<and> topic \<in> subsCalled (states c2 a)
        then (states c a)\<lparr>subsCalled := insert topic (subsCalled (states c a))\<rparr> else states c a)"
    by (rule once_fan [OF assms(1,2) solid_sentinels(2) run [unfolded subscribeFunc_shared [OF assms(2-5)]]])
      (use all that in \<open>simp add: subscribedOnAll_iff\<close>)
  have "states c2 a = states c a" for a
  proof (cases "a \<in> set (orderedClients c) \<and> topic \<in> subsCalled (states c2 a)")
    case True
    then have "topic \<in> subsCalled (states c a)" using all by (simp add: subscribedOnAll_def)
    with True show ?thesis using st [of a] by (simp add: insert_absorb)
  next
    case False
    then show ?thesis using st [of a] by argo
  qed
  then have "states c2 = states c" by blast
  then have "c2 = c" using c2 by (simp add: onlySubs_def)
  moreover from this have "r = Return None" using c2(4) all by simp
  ultimately show ?thesis using run by simp
qed

lemma filterSubs_fold:
  "fold (\<lambda>(topic, q) (sh, no). if p topic then (AList.update topic q sh, no)
           else (sh, AList.update topic q no)) es (a, b) =
   (fold (\<lambda>(k, v). AList.update k v) (filter (\<lambda>e. p (fst e)) es) a,
    fold (\<lambda>(k, v). AList.update k v) (filter (\<lambda>e. \<not> p (fst e)) es) b)"
  by (induction es arbitrary: a b) auto

lemma distinct_keys_filter: "distinct_keys m \<Longrightarrow> distinct_keys (filter P m)"
  by (induction m) auto

lemma map_of_filter_keys:
  "map_of (filter (\<lambda>e. P (fst e)) m) = (\<lambda>k. if P k then map_of m k else None)"
  by (induction m) (auto simp: fun_eq_iff)

lemma filterSubs_filter:
  assumes "ext_ok E" and "distinct_keys tq"
  shows "filterSubs E tq p =
     (filter (\<lambda>e. p (fst e)) (mapEntries (rangeOrder E) tq),
      filter (\<lambda>e. \<not> p (fst e)) (mapEntries (rangeOrder E) tq))"
  using mapEntries_keys [OF assms(2) ext_okD(5) [OF assms(1)]]
  by (simp add: filterSubs_def filterSubs_fold fold_update_entries distinct_keys_filter)

lemma map_of_mapEntries:
  assumes "distinct_keys m" and "perm_list ord"
  shows "map_of (mapEntries ord m) = map_of m"
  using assms by (intro map_of_inject_set [THEN iffD2]) (simp_all add: mapEntries_keys set_mapEntries)

text \<open>The loop of \<open>removeStoredSubsCalled\<close>.\<close>

lemma removeStored_states:
  assumes "ext_ok E" and "\<forall>a. finite (subsCalled (states c a))"
  shows "states (fold (\<lambda>(_, a) c. if isClient (states c a) = cc
             then updState a (\<lambda>s. s\<lparr>subsCalled :=
                    set_Delete E (subsCalled s) (set_Values E (subsCalled s))\<rparr>) c
             else c) es c) b =
     (if b \<in> snd ` set es \<and> isClient (states c b) = cc then (states c b)\<lparr>subsCalled := {}\<rparr> else states c b)"
  using assms(2)
proof (induction es arbitrary: c)
  case Nil
  then show ?case by simp
next
  case (Cons e es)
  have empty: "set_Delete E S (set_Values E S) = {}" if "finite S" for S
    using assms(1) that by simp
  obtain k a where e: "e = (k, a)" by (cases e)
  let ?f = "\<lambda>(_, a) c. if isClient (states c a) = cc then updState a (\<lambda>s. s\<lparr>subsCalled :=
      set_Delete E (subsCalled s) (set_Values E (subsCalled s))\<rparr>) c else c"
  define d where "d = ?f e c"
  have d: "states d b' = (if b' = a \<and> isClient (states c a) = cc
      then (states c a)\<lparr>subsCalled := {}\<rparr> else states c b')" for b'
    using empty Cons.prems e by (simp add: updState_def d_def)
  then have "\<forall>b'. finite (subsCalled (states d b'))" using Cons.prems by simp
  moreover have "fold ?f (e # es) c = fold ?f es d" by (simp add: d_def)
  ultimately show ?case
    using Cons.IH [of d] d [of b] e by auto
qed

section \<open>Properties\<close>

text \<open>
  C9: Subscribing to a shared topic with several connections makes exactly one request on
  each connection that has not subscribed to it yet, and none on the others. It succeeds
  exactly when afterwards every connection has the topic; the registry then holds the
  subscription, and is unchanged after a failure. A connection whose request failed keeps
  its state.
\<close>

theorem subscribe_shared:
  assumes "ext_ok E" and "wfClient c" and "multiMode c" and "orderedClients c \<noteq> []"
    and "sharedSubscriptionPredicate (options c) topic"
  shows "\<exists>r c' tr. Subscribe newHandlers E ctx topic cb opts c = (Return r, c') \<and>
     trace c' = trace c @ tr \<and>
     mset tr = mset (map (\<lambda>a. MSubscribe (isClient (states c a)) topic (qos (composeOptions opts)) cb)
        (unsubscribedOn topic c)) \<and>
     (r = None \<longleftrightarrow> subscribedOnAll topic c') \<and>
     (\<forall>a. states c' a = (if a \<in> set (orderedClients c) \<and> topic \<in> subsCalled (states c' a)
        then (states c a)\<lparr>subsCalled := insert topic (subsCalled (states c a))\<rparr> else states c a)) \<and>
     map_of (subscriptions c') = (if r = None
        then (map_of (subscriptions c))(topic \<mapsto> \<lparr>smTopic = topic, smOptions = opts, smCallback = cb\<rparr>)
        else map_of (subscriptions c))"
proof -
  obtain r c1 where run: "subscribeFunc E ctx topic cb opts c = (r, c1)" by fastforce
  obtain tr where tr: "trace c1 = trace c @ tr" "mset tr = mset (map (\<lambda>a.
        MSubscribe (isClient (states c a)) topic (qos (composeOptions opts)) cb) (unsubscribedOn topic c))"
      "is_Return r" "onlySubs c c1" "r = Return None \<longleftrightarrow> subscribedOnAll topic c1"
    and st: "\<And>a. states c1 a = (if a \<in> set (orderedClients c) \<and> topic \<in> subsCalled (states c1 a)
        then (states c a)\<lparr>subsCalled := insert topic (subsCalled (states c a))\<rparr> else states c a)"
    by (rule once_fan [OF assms(1,2) solid_sentinels(2) run [unfolded subscribeFunc_shared [OF assms(2-5)]]])
      (rule that)
  obtain e where r: "r = Return e" using tr(3) by (cases r) auto
  let ?c = "if r = Return None
         then c1\<lparr>subscriptions := AList.update topic
           \<lparr>smTopic = topic, smOptions = opts, smCallback = cb\<rparr> (subscriptions c1)\<rparr> else c1"
  have "states ?c = states c1" "trace ?c = trace c1" "subscribedOnAll topic ?c = subscribedOnAll topic c1"
    by simp_all
  moreover have "map_of (subscriptions ?c) = (if e = None
        then (map_of (subscriptions c))(topic \<mapsto> \<lparr>smTopic = topic, smOptions = opts, smCallback = cb\<rparr>)
        else map_of (subscriptions c))"
    using r onlySubs_fields(2) [OF tr(4)] by (simp add: update_conv')
  ultimately show ?thesis
    using Subscribe_eq [OF run] tr r st by (intro exI [of _ e] exI [of _ ?c] exI [of _ tr] conjI) auto
qed

theorem subscribe_shared_witness:
  "\<exists>c' tr r. Subscribe newHandlers refExt context_Background ''$share/g/t'' (AppHandler 3) [] refPool =
       (Return r, c') \<and> trace c' = trace refPool @ tr \<and>
     mset tr = {#MSubscribe 0 ''$share/g/t'' 0 (AppHandler 3), MSubscribe 1 ''$share/g/t'' 0 (AppHandler 3)#}"
proof -
  have shared: "sharedSubscriptionPredicate (options refPool) ''$share/g/t''"
    by (simp add: defaultSharedSubscriptionPredicate_def strings_HasPrefix_def)
  show ?thesis
    using subscribe_shared [OF ext_ok_refExt wfClient_reference(1) _ _ shared, of context_Background "AppHandler 3" "[]"]
    by (fastforce simp: unsubscribedOn_def composeOptions_def)
qed

text \<open>
  Subscribing again to a shared topic that was subscribed successfully makes no request
  and succeeds; it only replaces the entry of the registry.
\<close>

theorem subscribe_shared_idempotent:
  assumes "ext_ok E" and "wfClient c" and "multiMode c" and "orderedClients c \<noteq> []"
    and "sharedSubscriptionPredicate (options c) topic" and "ext_ok E'"
    and "Subscribe newHandlers E ctx topic cb opts c = (Return None, c1)"
  shows "Subscribe newHandlers E' ctx' topic cb' opts' c1 =
     (Return None, c1\<lparr>subscriptions := AList.update topic
        \<lparr>smTopic = topic, smOptions = opts', smCallback = cb'\<rparr> (subscriptions c1)\<rparr>)"
proof -
  obtain r1 c0 where run: "subscribeFunc E ctx topic cb opts c = (r1, c0)" by fastforce
  have r1: "r1 = Return None" and c1: "c1 = c0\<lparr>subscriptions := AList.update topic
      \<lparr>smTopic = topic, smOptions = opts, smCallback = cb\<rparr> (subscriptions c0)\<rparr>"
    using assms(7) Subscribe_eq [OF run] by auto
  obtain os: "onlySubs c c0" and "subscribedOnAll topic c0"
    by (rule once_fan [OF assms(1,2) solid_sentinels(2) run [unfolded subscribeFunc_shared [OF assms(2-5)]]])
      (use r1 that in blast)
  then have "subscribedOnAll topic c1" using c1 by simp
  moreover have "wfClient c1"
    using wfClient_Subscribe [OF okSubscriber_newHandlers assms(1,2), of ctx topic cb opts] assms(7)
    by simp
  moreover have "multiMode c1" "orderedClients c1 \<noteq> []" "sharedSubscriptionPredicate (options c1) topic"
    using assms(3-5) c1 onlySubs_fields [OF os] by auto
  ultimately show ?thesis
    using Subscribe_eq [OF subscribeFunc_again [OF assms(6)]] by simp
qed

lemma refPool_subscribe:
  "fst (Subscribe newHandlers refExt context_Background ''$share/g/t'' (AppHandler 3) [] refPool) = Return None"
  by (simp add: Subscribe_def subscribeFunc_shared defaultSharedSubscriptionPredicate_def
      strings_HasPrefix_def fanOut_def sliceCalls_def refExt_def refErrlib_def mapValues_def mapEntries_def
      List.map_filter_simps upt_rec onceOn_def handleToken_def waitForToken_def context_Background_def
      updState_def joinOutcomes_def reduceErrors_def accumulateErrors_def composeOptions_def)

theorem subscribe_shared_idempotent_witness:
  "\<exists>c1. Subscribe newHandlers refExt context_Background ''$share/g/t'' (AppHandler 3) [] refPool = (Return None, c1) \<and>
     fst (Subscribe newHandlers refExt context_Background ''$share/g/t'' (AppHandler 4) [] c1) = Return None \<and>
     trace (snd (Subscribe newHandlers refExt context_Background ''$share/g/t'' (AppHandler 4) [] c1)) = trace c1"
proof -
  obtain c1 where run: "Subscribe newHandlers refExt context_Background ''$share/g/t'' (AppHandler 3) [] refPool =
      (Return None, c1)"
    using refPool_subscribe by (metis prod.collapse)
  have shared: "sharedSubscriptionPredicate (options refPool) ''$share/g/t''"
    by (simp add: defaultSharedSubscriptionPredicate_def strings_HasPrefix_def)
  show ?thesis
    using subscribe_shared_idempotent [OF ext_ok_refExt wfClient_reference(1) _ _ shared ext_ok_refExt run,
        of context_Background "AppHandler 4" "[]"] run
    by simp
qed

text \<open>
  C10: Unsubscribing with several connections makes exactly one request on each of them. When
  all succeed, no connection and not the registry remembers any of the topics, and nothing
  else changes in them; after a failure the registry is unchanged.
\<close>

theorem unsubscribe_all:
  assumes "ext_ok E" and "wfClient c" and "multiMode c" and "orderedClients c \<noteq> []"
  shows "\<exists>r c' tr. Unsubscribe newHandlers E ctx topics c = (Return r, c') \<and>
     trace c' = trace c @ tr \<and>
     mset tr = mset (map (\<lambda>a. MUnsubscribe (isClient (states c a)) topics) (orderedClients c)) \<and>
     (r = None \<longrightarrow> (\<forall>a\<in>set (orderedClients c). states c' a =
        (states c a)\<lparr>subsCalled := subsCalled (states c a) - set topics\<rparr>)) \<and>
     map_of (subscriptions c') =
       (\<lambda>k. if r = None \<and> k \<in> set topics then None else map_of (subscriptions c) k)"
proof -
  obtain r c1 where run: "unsubscriberHandler E ctx topics c = (r, c1)" by fastforce
  obtain tr e where tr: "trace c1 = trace c @ tr"
      "mset tr = mset (remove.requests (\<lambda>m. MUnsubscribe m topics) c (orderedClients c))"
      "onlySubs c c1" "is_Return r"
      "r = Return None \<longleftrightarrow> (\<forall>a\<in>set (orderedClients c). e a = None)"
    and srv: "\<And>a. a \<in> set (orderedClients c) \<Longrightarrow>
      remove.served E ctx ErrUnsubscribeTimeout topics (options c) (states c a) (Return (e a)) (states c1 a)"
    by (rule remove.fan_clients [OF assms(1,2) solid_sentinels(3) run [unfolded unsubscriberHandler_multi [OF assms(2-4)]]])
      (rule that)
  have upd: "states c1 a = (states c a)\<lparr>subsCalled := subsCalled (states c a) - set topics\<rparr>"
    if "r = Return None" and "a \<in> set (orderedClients c)" for a
    using srv [OF that(2), unfolded remove.served_def] tr(5) that assms(1) by simp
  have reg: "distinct_keys (subscriptions c1)"
    using assms(2) onlySubs_fields(2) [OF tr(3)] by (simp add: wfClient_def)
  obtain q where r: "r = Return q" using tr(4) by (cases r) auto
  let ?c = "if r = Return None then c1\<lparr>subscriptions := fold AList.delete topics (subscriptions c1)\<rparr> else c1"
  have "map_of (subscriptions ?c) =
       (\<lambda>k. if q = None \<and> k \<in> set topics then None else map_of (subscriptions c) k)"
    using r gm.lookup_fold_delete [OF reg] onlySubs_fields(2) [OF tr(3)] by (cases q) (auto simp: fun_eq_iff)
  moreover have "states ?c = states c1" "trace ?c = trace c1" by simp_all
  ultimately show ?thesis
    using Unsubscribe_eq [OF run] tr upd r
    by (intro exI [of _ q] exI [of _ ?c] exI [of _ tr] conjI) (auto simp: remove.requests_def)
qed

theorem unsubscribe_all_witness:
  "\<exists>r c' tr. Unsubscribe newHandlers refExt context_Background [''a''] refPool = (Return r, c') \<and>
     trace c' = trace refPool @ tr \<and> mset tr = {#MUnsubscribe 0 [''a''], MUnsubscribe 1 [''a'']#}"
  using unsubscribe_all [OF ext_ok_refExt wfClient_reference(1), of context_Background "[''a'']"]
  by fastforce

text \<open>
  Subscribing to a topic that is not shared makes exactly one request, on one of the
  connections; the registry gets the subscription exactly when the request succeeds. No
  connection's set of shared subscriptions changes.
\<close>

theorem subscribe_normal:
  assumes "ext_ok E" and "wfClient c" and "multiMode c" and "orderedClients c \<noteq> []"
    and "\<not> sharedSubscriptionPredicate (options c) topic"
    and "clientIDCallbackKey ctx = None"
  shows "\<exists>a\<in>set (orderedClients c). \<exists>r c'.
     Subscribe newHandlers E ctx topic cb opts c = (Return r, c') \<and>
     trace c' = trace c @ [MSubscribe (isClient (states c a)) topic (qos (composeOptions opts)) cb] \<and>
     r = handleToken (options c) ctx (respond E (trace c')) ErrSubscribeTimeout \<and>
     states c' = states c \<and>
     map_of (subscriptions c') = (if r = None
        then (map_of (subscriptions c))(topic \<mapsto> \<lparr>smTopic = topic, smOptions = opts, smCallback = cb\<rparr>)
        else map_of (subscriptions c))"
proof -
  let ?xs = "mapValues (valuesOrder E) (mqttClients c)"
  let ?a = "?xs ! rand_Intn E (length ?xs)"
  let ?c = "c\<lparr>trace := trace c @ [MSubscribe (isClient (states c ?a)) topic (qos (composeOptions opts)) cb]\<rparr>"
  let ?r = "handleToken (options c) ctx (respond E (trace ?c)) ErrSubscribeTimeout"
  note vals = wfClient_values [OF assms(2,1)]
  have pos: "0 < length ?xs" using vals(2) assms(4) by (metis length_greater_0_conv set_empty)
  then have idx: "rand_Intn E (length ?xs) < length ?xs" using assms(1) by simp
  have run: "subscribeFunc E ctx topic cb opts c = (Return ?r, ?c)"
    using assms(3-6) wfClient_nonempty [OF assms(2)] pos idx sliceIndex_nat [OF idx]
    by (simp add: subscribeFunc_def Let_def execute_multi execMultiConn_def execOpt_defs execOne_def
        callClientIDCallback_def invokeClientIDCallback_def)
  have "?a \<in> set (orderedClients c)" using idx vals(2) nth_mem by blast
  then show ?thesis
    using Subscribe_eq [OF run] by (intro bexI [of _ ?a]) (auto simp: update_conv')
qed

theorem subscribe_normal_witness:
  "\<exists>a\<in>{0, 1}. \<exists>r c'. Subscribe newHandlers refExt context_Background ''t'' (AppHandler 3) [QOSOption QOSTwo] refPool =
       (Return r, c') \<and> trace c' = trace refPool @ [MSubscribe a ''t'' 2 (AppHandler 3)]"
proof -
  have "\<not> sharedSubscriptionPredicate (options refPool) ''t''"
    by (simp add: defaultSharedSubscriptionPredicate_def strings_HasPrefix_def)
  from subscribe_normal [OF ext_ok_refExt wfClient_reference(1) _ _ this, of context_Background "AppHandler 3"
      "[QOSOption QOSTwo]"]
  show ?thesis by (fastforce simp: context_Background_def composeOptions_def QOSTwo_def)
qed

text \<open>
  The split of a multiple subscription: every topic goes, with its level, to exactly one
  of the two maps, by the predicate, and nothing else does.
\<close>

theorem filterSubs_partition:
  assumes "ext_ok E" and "distinct_keys tq"
  shows "map_of (fst (filterSubs E tq p)) = (\<lambda>t. if p t then map_of tq t else None) \<and>
     map_of (snd (filterSubs E tq p)) = (\<lambda>t. if p t then None else map_of tq t) \<and>
     distinct_keys (fst (filterSubs E tq p)) \<and> distinct_keys (snd (filterSubs E tq p))"
  using mapEntries_keys [OF assms(2) ext_okD(5) [OF assms(1)]]
    map_of_mapEntries [OF assms(2) ext_okD(5) [OF assms(1)]]
  by (auto simp: filterSubs_filter [OF assms] map_of_filter_keys map_of_filter_keys [of "\<lambda>k. \<not> p k"] distinct_keys_filter)

theorem filterSubs_partition_witness:
  "map_of (fst (filterSubs refExt [(''a'', 1), (''$share/g/b'', 2)] defaultSharedSubscriptionPredicate)) = [''$share/g/b'' \<mapsto> 2]"
  using filterSubs_partition [OF ext_ok_refExt, of "[(''a'', 1), (''$share/g/b'', 2)]" defaultSharedSubscriptionPredicate]
  by (auto simp: defaultSharedSubscriptionPredicate_def strings_HasPrefix_def fun_eq_iff)

text \<open>
  C12: When the connection of a client is lost, exactly its connections forget their shared
  subscriptions, so that the next subscription to a shared topic is requested on them again
  besides the connections that still lack it.
\<close>

theorem connection_lost_resubscribes:
  assumes "ext_ok E" and "wfClient c" and "\<forall>a. finite (subsCalled (states c a))"
  shows "unsubscribedOn topic (connectionLostHandler E cc e c) =
     filter (\<lambda>a. isClient (states c a) = cc \<or> topic \<notin> subsCalled (states c a)) (orderedClients c)"
proof -
  let ?es = "mapEntries (rangeOrder E) (mqttClients c)"
  have os: "snd ` set ?es = set (orderedClients c)"
  proof -
    have "set ?es = set (mqttClients c)" using assms(1,2) by (simp add: set_mapEntries wfClient_def)
    moreover have "snd ` set (mqttClients c) = set (orderedClients c)"
      using assms(2) unfolding wfClient_def by (metis mset_eq_setD set_map)
    ultimately show ?thesis by simp
  qed
  have "orderedClients (connectionLostHandler E cc e c) = orderedClients c"
    using sameShape_fields(5) [OF connectionLostHandler_sameShape] .
  moreover have "topic \<notin> subsCalled (states (connectionLostHandler E cc e c) a) \<longleftrightarrow>
      isClient (states c a) = cc \<or> topic \<notin> subsCalled (states c a)" if "a \<in> set (orderedClients c)" for a
    using removeStored_states [OF assms(1,3), of cc ?es a] that os
    by (auto simp: connectionLostHandler_def Let_def removeStoredSubsCalled_def split: option.split)
  ultimately show ?thesis by (simp add: unsubscribedOn_def cong: filter_cong)
qed

theorem connection_lost_resubscribes_witness:
  "unsubscribedOn ''$share/g/t'' (connectionLostHandler refExt 0 (ErrorString ''EOF'') refPool) = [0, 1]"
proof -
  have "\<forall>a. finite (subsCalled (states refPool a))"
    unfolding refPool_def by (simp add: reference_defs Let_def upt_rec)
  from connection_lost_resubscribes [OF ext_ok_refExt wfClient_reference(1) this]
  show ?thesis by simp
qed

end
