(* ===== verification/Lifecycle.thy ===== *)
theory Lifecycle
  imports Subscribing
begin

text \<open>
  Construction, connecting and stopping: what the connections of a new client are, which of
  them are asked, what is reported, and the configurations in which a client starts without
  ever connecting.
\<close>

section \<open>Calls that only append an event\<close>

text \<open>
  The interface of a call that is made once per element and leaves nothing but one event.
  Disconnecting, connecting and resuming a subscription on a single connection provide it.
\<close>

locale emitting_call =
  fixes f :: "'a \<Rightarrow> ('v, 'x) client_scheme act"
    and ev :: "'v clientOptions \<Rightarrow> (addr \<Rightarrow> internalState) \<Rightarrow> 'a \<Rightarrow> event"
    and res :: "'v clientOptions \<Rightarrow> event list \<Rightarrow> err"
    and pre :: "('v, 'x) client_scheme \<Rightarrow> bool"
  assumes call: "pre c \<Longrightarrow> f x c =
      (let tr = trace c @ [ev (options c) (states c) x] in (Return (res (options c) tr), c\<lparr>trace := tr\<rparr>))"
    and pre_trace: "pre c \<Longrightarrow> pre (c\<lparr>trace := tr\<rparr>)"
begin

lemma emit_calls:
  assumes "pre c" and "distinct is" and "\<forall>i\<in>set is. i < length xs" and "length rs = length xs"
  shows "\<exists>es. callsInOrder f xs is rs c =
      (es, c\<lparr>trace := trace c @ map (\<lambda>i. ev (options c) (states c) (xs ! i)) is\<rparr>) \<and>
     length es = length xs \<and> (\<forall>i<length xs. i \<notin> set is \<longrightarrow> es ! i = rs ! i) \<and>
     (\<forall>i\<in>set is. \<exists>tr. es ! i = Return (res (options c) tr))"
  using assms
proof (induction "is" arbitrary: rs c)
  case Nil
  then show ?case by simp
next
  case (Cons i "is")
  define tr where "tr = trace c @ [ev (options c) (states c) (xs ! i)]"
  have step: "f (xs ! i) c = (Return (res (options c) tr), c\<lparr>trace := tr\<rparr>)"
    using call [OF Cons.prems(1)] by (simp add: tr_def Let_def)
  obtain es where es: "callsInOrder f xs is (rs[i := Return (res (options c) tr)]) (c\<lparr>trace := tr\<rparr>) =
      (es, c\<lparr>trace := tr @ map (\<lambda>i. ev (options c) (states c) (xs ! i)) is\<rparr>)"
      "length es = length xs"
      "\<forall>j<length xs. j \<notin> set is \<longrightarrow> es ! j = rs[i := Return (res (options c) tr)] ! j"
      "\<forall>j\<in>set is. \<exists>tr. es ! j = Return (res (options c) tr)"
    using Cons.IH [of "c\<lparr>trace := tr\<rparr>" "rs[i := Return (res (options c) tr)]"]
      pre_trace [OF Cons.prems(1)] Cons.prems by auto
  have "es ! i = Return (res (options c) tr)" using es(3) Cons.prems by simp
  with es step Cons.prems show ?case
    by (intro exI [of _ es]) (auto simp: tr_def)
qed

lemma emit_fan:
  assumes "ext_ok E" and "pre c"
  obtains es tr where "fanOut E f xs c = (Return (aggregate es), c\<lparr>trace := trace c @ tr\<rparr>)"
    "mset tr = mset (map (ev (options c) (states c)) xs)" "length es = length xs"
    "\<forall>e\<in>set es. \<exists>tr. e = res (options c) tr"
proof -
  let ?is = "concOrder E (length xs)"
  have "is": "distinct ?is" "set ?is = {0..<length xs}" "mset ?is = mset [0..<length xs]"
    using assms(1) ext_okD(2) [OF assms(1)] by (simp_all add: perm_simps perm_order_def)
  obtain rs where rs: "callsInOrder f xs ?is (replicate (length xs) (Return None)) c =
      (rs, c\<lparr>trace := trace c @ map (\<lambda>i. ev (options c) (states c) (xs ! i)) ?is\<rparr>)"
      "length rs = length xs" "\<forall>i\<in>set ?is. \<exists>tr. rs ! i = Return (res (options c) tr)"
    using emit_calls [OF assms(2) "is"(1), of xs "replicate (length xs) (Return None)"] "is"(2) by auto
  have all: "\<forall>r\<in>set rs. \<exists>tr. r = Return (res (options c) tr)"
    using rs(2,3) "is"(2) by (fastforce simp: in_set_conv_nth)
  then have ret: "\<forall>r\<in>set rs. is_Return r" by auto
  have "mset (map (\<lambda>i. ev (options c) (states c) (xs ! i)) ?is) =
      image_mset (\<lambda>i. ev (options c) (states c) (xs ! i)) (mset [0..<length xs])"
    using "is"(3) by simp
  also have "\<dots> = mset (map (ev (options c) (states c)) (map ((!) xs) [0..<length xs]))"
    by (simp add: comp_def del: mset_upt)
  finally have ms: "mset (map (\<lambda>i. ev (options c) (states c) (xs ! i)) ?is) =
      mset (map (ev (options c) (states c)) xs)" by (simp add: map_nth)
  show thesis
  proof (rule that [OF _ ms])
    show "fanOut E f xs c = (Return (aggregate (map returned rs)),
        c\<lparr>trace := trace c @ map (\<lambda>i. ev (options c) (states c) (xs ! i)) ?is\<rparr>)"
      using rs(1) ret assms(1)
      by (simp add: fanOut_def sliceCalls_def joinOutcomes_Return reduceErrors_aggregate)
    show "\<forall>e\<in>set (map returned rs). \<exists>tr. e = res (options c) tr"
      using all by (simp, metis outcome.sel)
  qed (use rs(2) in simp)
qed

end

interpretation disc: emitting_call "\<lambda>a c. onClient (Some (isClient (states c a))) disconnectOne c"
  "\<lambda>o1 st a. MDisconnect (isClient (st a)) (disconnectQuiesce o1)" "\<lambda>o1 tr. None" "\<lambda>c. True"
  by unfold_locales (simp_all add: onClient_def disconnectOne_def)

interpretation conn: emitting_call "\<lambda>a c. onClient (Some (isClient (states c a))) (connectOne E) c"
  "\<lambda>o1 st a. MConnect (isClient (st a))" "\<lambda>o1 tr. connectWait o1 (respond E tr)" "\<lambda>c. True"
  for E
  by unfold_locales (simp_all add: onClient_def connectOne_def pahoCall_def Let_def)

interpretation resume: emitting_call
  "\<lambda>tm. subscribeFunc E context_Background (smTopic tm) (smCallback tm) (smOptions tm)"
  "\<lambda>o1 st tm. MSubscribe m (smTopic tm) (qos (composeOptions (smOptions tm))) (smCallback tm)"
  "\<lambda>o1 tr. handleToken o1 context_Background (respond E tr) ErrSubscribeTimeout"
  "\<lambda>c. mqttClient c = Some m \<and> \<not> multiMode c"
  for E m
  by unfold_locales
    (simp_all add: subscribeFunc_def execute_def Let_def callClientIDCallback_def
      invokeClientIDCallback_def context_Background_def)

section \<open>Connecting and stopping all connections\<close>

lemma execute_all:
  assumes "multiMode c" and "mqttClient c \<noteq> None \<or> mqttClients c \<noteq> []"
  shows "execute E ctx f execAll c =
     fanOut E (\<lambda>a c. f (Some (isClient (states c a))) c) (mapValues (valuesOrder E) (mqttClients c)) c"
  using assms by (auto simp: execute_def execMultiConn_def execOpt_defs)

lemma solid_connectWait:
  "solid (tokError t) \<Longrightarrow> solid (connectWait o1 t)"
  by (simp add: connectWait_def solid_def sentinel_defs)

lemma runConnect_multi:
  assumes "ext_ok E" and "wfClient c" and "multiMode c" and "orderedClients c \<noteq> []"
  obtains es tr where "length es = length (orderedClients c)"
    "mset tr = mset (map (\<lambda>a. MConnect (isClient (states c a))) (orderedClients c))"
    "\<forall>e\<in>set es. \<exists>tr. e = connectWait (options c) (respond E tr)"
    "runConnect E c = (Return (aggregate es), let c' = c\<lparr>trace := trace c @ tr\<rparr>
       in if \<forall>e\<in>set es. e = None then handleInfoEmitter c' else c')"
proof -
  let ?xs = "mapValues (valuesOrder E) (mqttClients c)"
  note vals = wfClient_values [OF assms(2,1)]
  obtain es tr where run: "fanOut E (\<lambda>a c. onClient (Some (isClient (states c a))) (connectOne E) c) ?xs c =
        (Return (aggregate es), c\<lparr>trace := trace c @ tr\<rparr>)"
      and tr: "mset tr = mset (map (\<lambda>a. MConnect (isClient (states c a))) ?xs)"
      and es: "length es = length ?xs" "\<forall>e\<in>set es. \<exists>tr. e = connectWait (options c) (respond E tr)"
    by (rule conn.emit_fan [OF assms(1) TrueI])
  have "\<forall>e\<in>set es. solid e" using es(2) ext_okD(10) [OF assms(1)] by (metis solid_connectWait)
  then have none: "aggregate es = None \<longleftrightarrow> (\<forall>e\<in>set es. e = None)" by (rule aggregate_None_iff)
  show thesis
  proof (rule that [of es tr])
    show "length es = length (orderedClients c)" using es(1) vals(3) by (metis size_mset)
    show "mset tr = mset (map (\<lambda>a. MConnect (isClient (states c a))) (orderedClients c))"
      using tr vals(3) by simp
    show "runConnect E c = (Return (aggregate es), let c' = c\<lparr>trace := trace c @ tr\<rparr>
       in if \<forall>e\<in>set es. e = None then handleInfoEmitter c' else c')"
      using run none assms(3,4) wfClient_nonempty [OF assms(2)]
      by (auto simp: runConnect_def execute_all Let_def split: option.split)
  qed (fact es(2))
qed

lemma stop_multi:
  assumes "ext_ok E" and "wfClient c" and "multiMode c" and "orderedClients c \<noteq> []"
  obtains tr where
    "mset tr = mset (map (\<lambda>a. MDisconnect (isClient (states c a)) (disconnectQuiesce (options c))) (orderedClients c))"
    "stop E c = (Return None, c\<lparr>mqttClient := None, mqttClients := [], orderedClients := [],
       stopInfoEmitter := map_option (\<lambda>_. True) (stopInfoEmitter c), trace := trace c @ tr\<rparr>)"
proof -
  let ?xs = "mapValues (valuesOrder E) (mqttClients c)"
  note vals = wfClient_values [OF assms(2,1)]
  obtain es tr where run: "fanOut E (\<lambda>a c. onClient (Some (isClient (states c a))) disconnectOne c) ?xs c =
        (Return (aggregate es), c\<lparr>trace := trace c @ tr\<rparr>)"
      and tr: "mset tr = mset (map (\<lambda>a. MDisconnect (isClient (states c a)) (disconnectQuiesce (options c))) ?xs)"
      and es: "length es = length ?xs" "\<forall>e\<in>set es. \<exists>tr::event list. e = None"
    by (rule disc.emit_fan [OF assms(1) TrueI])
  have "aggregate es = None" using es(2) by (intro aggregate_all_None) auto
  then show thesis
    using run tr vals(3) assms(3,4) wfClient_nonempty [OF assms(2)]
    by (intro that [of tr]) (auto simp: stop_def execute_all Let_def split: option.split)
qed

lemma stop_single:
  assumes "\<not> multiMode c" and "mqttClient c = Some m"
  shows "stop E c = (Return None, c\<lparr>mqttClient := None, mqttClients := [], orderedClients := [],
       stopInfoEmitter := map_option (\<lambda>_. True) (stopInfoEmitter c),
       trace := trace c @ [MDisconnect m (disconnectQuiesce (options c))]\<rparr>)"
  using assms
  by (auto simp: stop_def execute_def onClient_def disconnectOne_def callClientIDCallback_def
      invokeClientIDCallback_def context_Background_def Let_def split: option.split)

section \<open>Asking whether a connection is open\<close>

lemma setVal_fields [simp]:
  "trace (setVal c) = trace c" "states (setVal c) = states c" "fst (client.more (setVal c))"
  by (cases c; simp add: setVal_def split: prod.splits)+

abbreviation askOpen :: "ext \<Rightarrow> addr \<Rightarrow> ('v, bool \<times> 'x) client_scheme act" where
  "askOpen E a s \<equiv> onClient (Some (isClient (states s a)))
     (\<lambda>m s. (Return None, if isConnectionOpen E (trace s) m then setVal s else s)) s"

lemma askOpen_calls:
  assumes "callsInOrder (askOpen E) xs is rs s = (rs', s')" and "\<forall>r\<in>set rs. r = Return None"
  shows "(\<forall>r\<in>set rs'. r = Return None) \<and> (fst (client.more s') \<longleftrightarrow> fst (client.more s) \<or>
     (\<exists>i\<in>set is. isConnectionOpen E (trace s) (isClient (states s (xs ! i)))))"
  using assms
proof (induction "is" arbitrary: rs s)
  case Nil
  then show ?case by simp
next
  case (Cons i "is")
  have "\<forall>r\<in>set (rs[i := Return None]). r = Return None"
    using Cons.prems(2) set_update_subset_insert [of rs i "Return None"] by blast
  then show ?case
    using Cons.IH [of "rs[i := Return None]" s] Cons.IH [of "rs[i := Return None]" "setVal s"] Cons.prems(1)
    by (auto simp: onClient_def split: if_splits)
qed

lemma isConnected_multi:
  assumes "ext_ok E" and "wfClient c" and "multiMode c"
  shows "IsConnected E c \<longleftrightarrow> (\<exists>a\<in>set (orderedClients c). isConnectionOpen E (trace c) (isClient (states c a)))"
proof (cases "mqttClient c = None \<and> mqttClients c = []")
  case True
  then have "orderedClients c = []" using wfClient_nonempty [OF assms(2)] by blast
  with True show ?thesis
    by (simp add: IsConnected_def isConnectedRun_def execute_def client.defs)
next
  case False
  let ?s = "client.extend (client.truncate c) (False, client.more c)"
  let ?xs = "mapValues (valuesOrder E) (mqttClients c)"
  obtain rs s' where run: "sliceCalls (concOrder E) (Return None) (askOpen E) ?xs ?s = (rs, s')" by fastforce
  have ask: "(\<forall>r\<in>set rs. r = Return None) \<and> (fst (client.more s') \<longleftrightarrow>
      (\<exists>i\<in>set (concOrder E (length ?xs)). isConnectionOpen E (trace c) (isClient (states c (?xs ! i)))))"
    using askOpen_calls [OF run [unfolded sliceCalls_def]] by (simp add: client.defs)
  have "set (concOrder E (length ?xs)) = {0..<length ?xs}" using assms(1) by (simp add: perm_simps)
  then have vals: "(\<exists>i\<in>set (concOrder E (length ?xs)). P (?xs ! i)) \<longleftrightarrow> (\<exists>a\<in>set (orderedClients c). P a)" for P
    using wfClient_values(2) [OF assms(2,1)] by (metis atLeastLessThan_iff in_set_conv_nth zero_le)
  have "aggregate (map returned rs) = None" using ask by (intro aggregate_all_None) auto
  moreover have "isConnectedRun E c = fanOut E (askOpen E) ?xs ?s"
    using False assms(3) by (auto simp: isConnectedRun_def execute_all client.defs)
  moreover have "\<forall>r\<in>set rs. is_Return r" using ask by auto
  ultimately show ?thesis
    using run ask vals assms(1)
    by (simp add: IsConnected_def fanOut_def joinOutcomes_Return reduceErrors_aggregate)
qed

lemma isConnected_single:
  assumes "\<not> multiMode c"
  shows "IsConnected E c \<longleftrightarrow> (case mqttClient c of Some m \<Rightarrow> isConnectionOpen E (trace c) m
     | None \<Rightarrow> False)"
  using assms
  by (auto simp: IsConnected_def isConnectedRun_def execute_def client.defs onClient_def
      callClientIDCallback_def invokeClientIDCallback_def context_Background_def setVal_def
      split: option.split)

section \<open>Client identifiers\<close>

text \<open>The MQTT client identifiers of the clients that were created, in order.\<close>

fun createdIDs :: "event list \<Rightarrow> string list" where
  "createdIDs [] = []"
| "createdIDs (NewMqttClient _ opts # es) = mqClientID opts # createdIDs es"
| "createdIDs (_ # es) = createdIDs es"

lemma createdIDs_append [simp]: "createdIDs (es @ fs) = createdIDs es @ createdIDs fs"
  by (induction es rule: createdIDs.induct) auto

definition baseID :: "ext \<Rightarrow> 'v clientOptions \<Rightarrow> string" where
  "baseID E o1 = (case os_Hostname E of Some h \<Rightarrow> if clientID o1 = [] then h else clientID o1
     | None \<Rightarrow> clientID o1)"

lemma mqClientID_setCredentials [simp]: "mqClientID (setCredentials E tr o1 opts) = mqClientID opts"
  by (simp add: setCredentials_def refreshCredentialsWithFetcher_def split: option.split sum.split)

lemma mqClientID_toClientOptions: "mqClientID (toClientOptions E tr o1 suffix) = baseID E o1 @ suffix"
  by (simp add: toClientOptions_def Let_def baseID_def split: option.split)

lemma createdIDs_pool:
  "options (fold (poolStep E) [0..<n] c) = options c \<and>
   createdIDs (trace (fold (poolStep E) [0..<n] c)) =
     createdIDs (trace c) @ map (\<lambda>i. baseID E (options c) @ ''-'' @ dec i) [0..<n]"
  by (induction n)
    (auto simp: poolStep_def newMqttClient_def addConnection_def Let_def mqClientID_toClientOptions)

lemma distinct_pool_ids: "distinct (map (\<lambda>i. s @ ''-'' @ dec i) [0..<n])"
  by (simp add: distinct_map inj_on_def)

section \<open>Properties\<close>

text \<open>
  C13: Every client the package constructs, and every client reached from it by any sequence
  of operations, address updates, goroutines and connection events, in any environment and
  under middlewares that keep it, is well-formed: the map and the rotation hold the same
  connections, each once, pooling and multi-connection mode exclude each other, and the
  registry files every subscription under its own topic.
\<close>

theorem reachable_wellformed:
  assumes "constructed c" and "clientStep\<^sup>*\<^sup>* c c'"
  shows "wfClient c'"
  by (rule cl.inv_run [OF assms])

theorem reachable_wellformed_witness:
  "wfClient (snd (Publish newHandlers refExt context_Background ''t'' ''x'' [] refPool))"
proof -
  have "clientStep refPool (snd (Publish newHandlers refExt context_Background ''t'' ''x'' [] refPool))"
    by (rule step_Publish [OF okHandlers_newHandlers ext_ok_refExt])
  then show ?thesis
    using reachable_wellformed [OF constructed_reference(1)] by blast
qed


lemma refPool_made:
  "list_all packageOption [WithClientID ''app'', WithAddress ''localhost'' 1883, WithPoolSize 2]"
  "NewClient refExt refEncoder refJson [WithClientID ''app'', WithAddress ''localhost'' 1883, WithPoolSize 2] =
     Inr refPool"
  by (simp add: packageOption.intros)
    (unfold refPool_def refNew_def, simp add: reference_defs Let_def upt_rec)

text \<open>
  C15: The configuration of every client that \<^verbatim>\<open>NewClient\<close> makes from the options of the package is
  well formed: pooling is on exactly for a pool size above one, the size is not negative, the
  maximal interval between start attempts is positive, a pool and multi-connection mode exclude
  each other, and an emitter has an interval of a second or more.
\<close>

theorem client_options_wellformed:
  assumes "list_all packageOption opts" and "NewClient E je jd opts = Inr c"
  shows "wfOptions (options c) \<and> \<not> (poolEnabled (options c) \<and> multiConnectionMode (options c)) \<and>
    (emitterSet (options c) \<longrightarrow> second \<le> emitterIntervalOf (options c))"
proof -
  let ?co = "applyOptions opts (defaultClientOptions je jd)"
  have ck: "checkOptions ?co = None" using assms(2) by (auto simp: NewClient_def Let_def split: option.splits)
  then have "options c = ?co"
    using assms(2) pool_effect(3) [OF ck]
    by (auto simp: NewClient_def Let_def freshClient_def newMqttClient_def split: if_splits)
  with ck wfOptions_applyOptions [OF assms(1), of "defaultClientOptions je jd"] show ?thesis
    by (auto simp: checkOptions_def split: if_splits)
qed

theorem client_options_wellformed_witness: "wfOptions (options refPool)"
  using client_options_wellformed [OF refPool_made] by blast







text \<open>
  A client is connected exactly when one of its connections is open.
\<close>

theorem is_connected_iff:
  assumes "ext_ok E" and "wfClient c"
  shows "IsConnected E c \<longleftrightarrow>
     (if multiMode c then \<exists>a\<in>set (orderedClients c). isConnectionOpen E (trace c) (isClient (states c a))
      else \<exists>m. mqttClient c = Some m \<and> isConnectionOpen E (trace c) m)"
  using isConnected_multi [OF assms] isConnected_single [of c E] by (auto split: option.split)

theorem is_connected_iff_witness: "IsConnected refExt refPool \<and> \<not> IsConnected refExt refMulti"
  using is_connected_iff [OF ext_ok_refExt wfClient_reference(1)]
    is_connected_iff [OF ext_ok_refExt wfClient_reference(3)]
  by (auto simp: refExt_def)



end
