(* ===== verification/Updates.thy ===== *)
theory Updates
  imports Lifecycle
begin

text \<open>
  Following a resolver: which connections a client has after an address update, which old
  ones are disconnected, which subscriptions are made again, and that the attempts of a
  single connection visit all addresses and end once an attempt succeeds.
\<close>

section \<open>Replacing the connections\<close>

lemma resume_sameShape: "sameShape c (snd (resumeSubscriptions newHandlers E c))"
proof (cases "subscriptions c = []")
  case False
  then show ?thesis
    by (simp add: resumeSubscriptions_def)
      (rule fanOut_rel [where rel = sameShape], rule subscribeFunc_sameShape, simp, erule (1) sameShape_trans)
qed (simp add: resumeSubscriptions_def)

text \<open>The clients of the connections, in the order of the rotation.\<close>

definition rotationClients :: "('v, 'x) client_scheme \<Rightarrow> mclient list" where
  "rotationClients c = map (\<lambda>a. isClient (states c a)) (orderedClients c)"

lemma rotationClients_sameShape:
  assumes "sameShape c c'"
  shows "rotationClients c' = rotationClients c"
proof -
  have "isClient (states c' a) = isClient (states c a)" for a
    using assms unfolding sameShape_def by blast
  then show ?thesis
    unfolding rotationClients_def sameShape_fields(5) [OF assms] by simp
qed

lemma reloadClients_effect:
  assumes "ext_ok E" and "distinct_keys clients" and "clients \<noteq> []"
  shows "rotationClients (reloadClients E clients c) = map snd (mapEntries (rangeOrder E) clients)"
    "\<forall>a\<in>set (orderedClients (reloadClients E clients c)). subsCalled (states (reloadClients E clients c) a) = {}"
    "goroutines (reloadClients E clients c) = goroutines c @
       (let ocs = map (\<lambda>a. isClient (states c a)) (mapValues (valuesOrder E) (mqttClients c))
        in if ocs = [] then [] else [GoDisconnectAll ocs])"
    "multiConnRevision (reloadClients E clients c) = multiConnRevision c"
    "subscriptions (reloadClients E clients c) = subscriptions c"
    "options (reloadClients E clients c) = options c"
proof -
  let ?es = "mapEntries (rangeOrder E) clients" and ?n = "nextAddr c"
  let ?ocs = "map (\<lambda>a. isClient (states c a)) (mapValues (valuesOrder E) (mqttClients c))"
  define d where "d = fold (\<lambda>(k, m). addConnection k m) ?es (c\<lparr>mqttClients := [], orderedClients := []\<rparr>)"
  have d: "d = c\<lparr>states := addedStates ?n (map snd ?es) (states c), nextAddr := ?n + length ?es,
      mqttClients := zip (map fst ?es) [?n..<?n + length ?es], orderedClients := [?n..<?n + length ?es]\<rparr>"
    unfolding d_def
    using addConnections_effect [of ?es "c\<lparr>mqttClients := [], orderedClients := []\<rparr>"]
      mapEntries_keys [OF assms(2) ext_okD(5) [OF assms(1)]] by simp
  have r: "reloadClients E clients c =
      (if ?ocs = [] then d else d\<lparr>goroutines := goroutines d @ [GoDisconnectAll ?ocs]\<rparr>)"
    using assms(3) by (simp add: reloadClients_def Let_def d_def)
  have "map (\<lambda>a. isClient (addedStates ?n (map snd ?es) (states c) a)) [?n..<?n + length ?es] = map snd ?es"
    by (rule nth_equalityI) (simp_all add: addedStates_def)
  then show "rotationClients (reloadClients E clients c) = map snd ?es"
    unfolding r d rotationClients_def by simp
  show "\<forall>a\<in>set (orderedClients (reloadClients E clients c)). subsCalled (states (reloadClients E clients c) a) = {}"
    unfolding r d by (simp add: addedStates_def)
  show "goroutines (reloadClients E clients c) = goroutines c @
       (let ocs = ?ocs in if ocs = [] then [] else [GoDisconnectAll ocs])"
    unfolding r d by (simp add: Let_def)
  show "multiConnRevision (reloadClients E clients c) = multiConnRevision c"
    "subscriptions (reloadClients E clients c) = subscriptions c"
    "options (reloadClients E clients c) = options c"
    unfolding r d by simp_all
qed

lemma reloadClients_none: "ext_ok E \<Longrightarrow> reloadClients E [] c = c"
  by (simp add: reloadClients_def)

lemma mset_attempted_entries:
  assumes "ext_ok E" and "attempted E addrs c = (c1, clients)"
  shows "distinct_keys (mapEntries (rangeOrder E) clients)"
    "mset (mapEntries (rangeOrder E) clients) = mset clients"
    "mset (mapValues (valuesOrder E) (mapEntries (rangeOrder E) clients)) = mset (map snd clients)"
    "mset (map snd (mapEntries (rangeOrder E) (mapEntries (rangeOrder E) clients))) = mset (map snd clients)"
proof -
  note props = attempted_props [OF assms]
  show keys: "distinct_keys (mapEntries (rangeOrder E) clients)"
    using mapEntries_keys [OF props(2) ext_okD(5) [OF assms(1)]] .
  show ms: "mset (mapEntries (rangeOrder E) clients) = mset clients"
    using props(2) assms(1) by (simp add: mset_mapEntries)
  show "mset (mapValues (valuesOrder E) (mapEntries (rangeOrder E) clients)) = mset (map snd clients)"
    using mset_mapValues [OF keys ext_okD(4) [OF assms(1)]] ms by simp
  show "mset (map snd (mapEntries (rangeOrder E) (mapEntries (rangeOrder E) clients))) = mset (map snd clients)"
    using mset_mapEntries [OF keys ext_okD(5) [OF assms(1)]] ms by simp
qed

lemma multi_update_fields:
  assumes "ext_ok E" and "multipleClients E addrs c = (cl, c2)"
  shows "options (reloadClients E cl c2) = options c" "subscriptions (reloadClients E cl c2) = subscriptions c"
proof -
  obtain c1 clients where att: "attempted E addrs c = (c1, clients)" by fastforce
  note same = sameShape_fields [OF attempted_props(1) [OF assms(1) att]]
  have c2: "options c2 = options c" "subscriptions c2 = subscriptions c"
    using assms(2) same unfolding multipleClients_cases [OF assms(1) att]
    by (auto simp: Let_def split: if_splits)
  have "distinct_keys cl"
    using assms(2) mset_attempted_entries(1) [OF assms(1) att] unfolding multipleClients_cases [OF assms(1) att]
    by (auto simp: Let_def split: if_splits)
  then show "options (reloadClients E cl c2) = options c" "subscriptions (reloadClients E cl c2) = subscriptions c"
    using c2 reloadClients_effect(5,6) [OF assms(1), of cl c2] reloadClients_none [OF assms(1), of c2]
    by (cases "cl = []"; simp)+
qed

lemma attemptConnections_multi:
  assumes "multiConnectionMode (options c)" and "multipleClients E addrs c = (cl, c2)"
    and "c' = snd (attemptConnections newHandlers E addrs c)"
  shows "sameShape (reloadClients E cl c2) c'"
  using assms resume_sameShape [of "reloadClients E cl c2" E]
  by (simp add: attemptConnections_def attemptMultiConnections_def)

lemma update_connected:
  assumes "ext_ok E" and "wfClient c" and "multiConnectionMode (options c)"
    and "attempted E addrs c = (c1, clients)"
    and "c' = snd (attemptConnections newHandlers E addrs c)"
    and "\<exists>e\<in>set clients. isConnectionOpen E (trace c1) (snd e)"
  shows "mset (rotationClients c') = mset (map snd clients)"
    "multiConnRevision c' = multiConnRevision c + 1"
    "\<exists>old. mset old = mset (rotationClients c) \<and>
       goroutines c' = goroutines c @ (if old = [] then [] else [GoDisconnectAll old])"
proof -
  let ?es = "mapEntries (rangeOrder E) clients"
  let ?c2 = "c1\<lparr>multiConnRevision := multiConnRevision c + 1\<rparr>"
  note props = attempted_props [OF assms(1,4)] and ms = mset_attempted_entries [OF assms(1,4)]
  have "multipleClients E addrs c = (?es, ?c2)"
    unfolding multipleClients_cases [OF assms(1,4)] using assms(6) by (simp add: Let_def)
  then have sh: "sameShape (reloadClients E ?es ?c2) c'"
    by (rule attemptConnections_multi [OF assms(3) _ assms(5)])
  have "?es \<noteq> []" using assms(6) ms(2) by auto
  note eff = reloadClients_effect [OF assms(1) ms(1) this, of ?c2]
  show "mset (rotationClients c') = mset (map snd clients)"
    unfolding rotationClients_sameShape [OF sh] eff(1) ms(4) ..
  show "multiConnRevision c' = multiConnRevision c + 1"
    using sameShape_fields [OF sh] eff(4) by simp
  let ?old = "map (\<lambda>a. isClient (states c1 a)) (mapValues (valuesOrder E) (mqttClients c1))"
  have "mset ?old = mset (rotationClients c)"
    unfolding rotationClients_sameShape [OF props(1), symmetric]
    using wfClient_values(3) [OF sameShape_wfClient [OF props(1) assms(2)] assms(1)]
    by (simp add: rotationClients_def)
  moreover have "goroutines c' = goroutines c @ (if ?old = [] then [] else [GoDisconnectAll ?old])"
    using sameShape_fields [OF sh] sameShape_fields [OF props(1)] eff(3) by (simp add: Let_def)
  ultimately show "\<exists>old. mset old = mset (rotationClients c) \<and>
       goroutines c' = goroutines c @ (if old = [] then [] else [GoDisconnectAll old])" by blast
qed

lemma update_unconnected:
  assumes "ext_ok E" and "multiConnectionMode (options c)"
    and "attempted E addrs c = (c1, clients)"
    and "c' = snd (attemptConnections newHandlers E addrs c)"
    and "\<not> (\<exists>e\<in>set clients. isConnectionOpen E (trace c1) (snd e))"
  shows "rotationClients c' = rotationClients c" "multiConnRevision c' = multiConnRevision c"
    "\<exists>new. mset new = mset (map snd clients) \<and> goroutines c' = goroutines c @ [GoDisconnectAll new]"
proof -
  let ?new = "mapValues (valuesOrder E) (mapEntries (rangeOrder E) clients)"
  let ?c2 = "c1\<lparr>goroutines := goroutines c1 @ [GoDisconnectAll ?new]\<rparr>"
  note props = attempted_props [OF assms(1,3)]
  have "multipleClients E addrs c = ([], ?c2)"
    unfolding multipleClients_cases [OF assms(1,3)] using assms(5) by (simp add: Let_def)
  then have sh: "sameShape ?c2 c'"
    using attemptConnections_multi [OF assms(2) _ assms(4)] reloadClients_none [OF assms(1)] by metis
  have "rotationClients ?c2 = rotationClients c"
    using rotationClients_sameShape [OF props(1)] by (simp add: rotationClients_def)
  then show "rotationClients c' = rotationClients c" using rotationClients_sameShape [OF sh] by simp
  show "multiConnRevision c' = multiConnRevision c"
    using sameShape_fields [OF sh] sameShape_fields [OF props(1)] by simp
  show "\<exists>new. mset new = mset (map snd clients) \<and> goroutines c' = goroutines c @ [GoDisconnectAll new]"
    using sameShape_fields [OF sh] sameShape_fields [OF props(1)] mset_attempted_entries(3) [OF assms(1,3)]
    by (intro exI [of _ ?new]) simp
qed

section \<open>The attempts of a single connection\<close>

text \<open>One attempt of \<open>newClientLoop\<close>: the new client, the answer to its connect, the state.\<close>

definition connectAttempt ::
  "ext \<Rightarrow> TCPAddress list \<Rightarrow> nat \<Rightarrow> ('v, 'x) client_scheme \<Rightarrow> mclient \<times> token \<times> ('v, 'x) client_scheme" where
  "connectAttempt E addrs n c =
     (let a = addrs ! (n mod length addrs);
          o1 = (options c)\<lparr>brokerAddress := TCPAddress_String a\<rparr>;
          opts = toClientOptions E (trace c) o1 [];
          m = newClientFunc E (trace c) opts;
          tr = trace c @ [NewMqttClient m opts, MConnect m]
      in (m, respond E tr, c\<lparr>trace := tr\<rparr>))"

lemma newClientLoop_step:
  "newClientLoop (Suc fuel) E addrs n c =
     (case connectAttempt E addrs n c of (m, t, c2) \<Rightarrow>
        if connectWait (options c) t = None then (Some m, c2) else newClientLoop fuel E addrs (n + 1) c2)"
  by (auto simp: connectAttempt_def newMqttClient_def pahoCall_def Let_def connectWait_def
      TCPAddress_String_def split: option.split)

lemma connectAttempt_state:
  "connectAttempt E addrs n c = (m, t, c2) \<Longrightarrow>
     options c2 = options c \<and> length (trace c2) = length (trace c) + 2 \<and> t = respond E (trace c2)"
  by (auto simp: connectAttempt_def Let_def)

lemma newClientLoop_more_fuel:
  "newClientLoop f E addrs n c = (Some m, c') \<Longrightarrow> f \<le> g \<Longrightarrow> newClientLoop g E addrs n c = (Some m, c')"
proof (induction f arbitrary: n c g)
  case 0
  then show ?case by simp
next
  case (Suc f)
  then obtain g' where g: "g = Suc g'" by (cases g) auto
  obtain m1 t c2 where att: "connectAttempt E addrs n c = (m1, t, c2)" by (cases "connectAttempt E addrs n c")
  show ?case
    using Suc.prems Suc.IH [of "n + 1" c2 g'] unfolding g newClientLoop_step att
    by (auto split: if_splits)
qed

lemma newClientLoop_ends:
  assumes "\<And>tr. T \<le> length tr \<Longrightarrow> connectWait (options c) (respond E tr) = None"
  shows "\<exists>m c'. newClientLoop (Suc (T - length (trace c))) E addrs n c = (Some m, c')"
  using assms
proof (induction "T - length (trace c)" arbitrary: c n rule: less_induct)
  case less
  obtain m t c2 where att: "connectAttempt E addrs n c = (m, t, c2)" by (cases "connectAttempt E addrs n c")
  note st = connectAttempt_state [OF att]
  show ?case
  proof (cases "connectWait (options c) t = None")
    case True
    then show ?thesis unfolding newClientLoop_step att by simp
  next
    case False
    then have T: "length (trace c2) < T" using less.prems [of "trace c2"] st by (meson not_le)
    then have lt: "T - length (trace c2) < T - length (trace c)" using st by linarith
    obtain m' c' where "newClientLoop (Suc (T - length (trace c2))) E addrs (n + 1) c2 = (Some m', c')"
      using less.hyps [OF lt, of "n + 1"] less.prems st by auto
    then have "newClientLoop (T - length (trace c)) E addrs (n + 1) c2 = (Some m', c')"
      by (rule newClientLoop_more_fuel) (use lt in linarith)
    with False show ?thesis unfolding newClientLoop_step att by auto
  qed
qed

text \<open>The broker a created client was pointed at, attempt by attempt.\<close>

fun triedServers :: "event list \<Rightarrow> string list" where
  "triedServers [] = []"
| "triedServers (NewMqttClient _ opts # es) = last (mqServers opts) # triedServers es"
| "triedServers (_ # es) = triedServers es"

lemma triedServers_append [simp]: "triedServers (es @ fs) = triedServers es @ triedServers fs"
  by (induction es rule: triedServers.induct) auto

definition serverOf :: "'v clientOptions \<Rightarrow> TCPAddress \<Rightarrow> string" where
  "serverOf o1 a = formatAddressWithProtocol (o1\<lparr>brokerAddress := TCPAddress_String a\<rparr>)"

lemma triedServers_attempt:
  "connectAttempt E addrs n c = (m, t, c2) \<Longrightarrow>
     triedServers (trace c2) = triedServers (trace c) @ [serverOf (options c) (addrs ! (n mod length addrs))]"
  by (auto simp: connectAttempt_def Let_def toClientOptions_def serverOf_def)

lemma newClientLoop_rotation:
  "newClientLoop f E addrs n c = (r, c') \<Longrightarrow> \<exists>k\<le>f. (r = None \<longrightarrow> k = f) \<and>
     triedServers (trace c') = triedServers (trace c) @
       map (\<lambda>i. serverOf (options c) (addrs ! ((n + i) mod length addrs))) [0..<k]"
proof (induction f arbitrary: n c)
  case 0
  then show ?case by auto
next
  case (Suc f)
  obtain m t c2 where att: "connectAttempt E addrs n c = (m, t, c2)" by (cases "connectAttempt E addrs n c")
  note st = connectAttempt_state [OF att] and tried = triedServers_attempt [OF att]
  show ?case
  proof (cases "connectWait (options c) t = None")
    case True
    with Suc.prems tried show ?thesis
      unfolding newClientLoop_step att by (intro exI [of _ 1]) auto
  next
    case False
    then have "newClientLoop f E addrs (n + 1) c2 = (r, c')"
      using Suc.prems unfolding newClientLoop_step att by (auto split: if_splits)
    from Suc.IH [OF this] obtain k where k: "k \<le> f" "r = None \<longrightarrow> k = f"
      "triedServers (trace c') = triedServers (trace c2) @
         map (\<lambda>i. serverOf (options c) (addrs ! ((n + 1 + i) mod length addrs))) [0..<k]"
      using st by auto
    have "map (\<lambda>i. serverOf (options c) (addrs ! ((n + i) mod length addrs))) [0..<Suc k] =
        serverOf (options c) (addrs ! (n mod length addrs)) #
          map (\<lambda>i. serverOf (options c) (addrs ! ((n + 1 + i) mod length addrs))) [0..<k]"
      by (simp add: upt_conv_Cons map_Suc_upt [symmetric] comp_def del: upt_Suc)
    with k tried show ?thesis by (intro exI [of _ "Suc k"]) auto
  qed
qed

section \<open>Properties\<close>





text \<open>
  C22: The search for a single connection ends: when the brokers answer every connect from
  some point on, enough attempts give a client, and more attempts than that change nothing.
\<close>

theorem single_connection_found:
  assumes "\<And>tr. T \<le> length tr \<Longrightarrow> connectWait (options c) (respond E tr) = None"
  shows "\<exists>fuel m c'. \<forall>f\<ge>fuel. newClientLoop f E addrs n c = (Some m, c')"
  using newClientLoop_ends [of T c E addrs n, OF assms] newClientLoop_more_fuel by meson

theorem single_connection_found_witness:
  "\<exists>fuel m c'. \<forall>f\<ge>fuel. newClientLoop f refExt [TCPAddress ''h'' 1] 0 refSingle = (Some m, c')"
  by (rule single_connection_found [of 0]) (simp add: connectWait_def refExt_def)

text \<open>
  The attempts visit the addresses in turn: the brokers tried are the given addresses,
  from the first on, round and round, until an attempt succeeds.
\<close>

theorem single_connection_rotation:
  assumes "newClientLoop fuel E addrs 0 c = (r, c')"
  shows "\<exists>k\<le>fuel. (r = None \<longrightarrow> k = fuel) \<and>
     triedServers (trace c') = triedServers (trace c) @
       map (\<lambda>i. serverOf (options c) (addrs ! (i mod length addrs))) [0..<k]"
  using newClientLoop_rotation [OF assms] by simp

theorem single_connection_rotation_witness:
  "\<exists>k\<le>3. triedServers (trace (snd (newClientLoop 3 refExt [TCPAddress ''h'' 1, TCPAddress ''k'' 2] 0 refSingle))) =
     triedServers (trace refSingle) @
       map (\<lambda>i. serverOf (options refSingle) ([TCPAddress ''h'' 1, TCPAddress ''k'' 2] ! (i mod 2))) [0..<k]"
proof -
  obtain r c' where run: "newClientLoop 3 refExt [TCPAddress ''h'' 1, TCPAddress ''k'' 2] 0 refSingle = (r, c')"
    by fastforce
  show ?thesis using single_connection_rotation [OF run] run by (auto simp: numeral_2_eq_2)
qed

end
