(* ===== verification/Resume.thy ===== *)
theory Resume
  imports Updates
begin

text \<open>
  Subscriptions across address updates: after the connections were replaced, the registry is
  subscribed again, on the single connection, or on every connection for shared topics.
\<close>

section \<open>Subscribing only adds\<close>

definition grows :: "('v, 'x) client_scheme \<Rightarrow> ('v, 'x) client_scheme \<Rightarrow> bool" where
  "grows c c' \<longleftrightarrow> sameShape c c' \<and> (\<forall>a. subsCalled (states c a) \<subseteq> subsCalled (states c' a))"

definition severalConnections :: "('v, 'x) client_scheme \<Rightarrow> bool" where
  "severalConnections c \<longleftrightarrow> wfClient c \<and> multiMode c \<and> orderedClients c \<noteq> []"

lemma grows_refl [simp]: "grows c c"
  by (simp add: grows_def)

lemma grows_trans: "grows c d \<Longrightarrow> grows d e \<Longrightarrow> grows c e"
  unfolding grows_def using sameShape_trans by blast

lemma grows_several: "grows c c' \<Longrightarrow> severalConnections c \<Longrightarrow> severalConnections c'"
  unfolding grows_def severalConnections_def
  using sameShape_wfClient [of c c'] sameShape_fields(1,5) [of c c'] by metis

lemma grows_subscribed: "grows c c' \<Longrightarrow> subscribedOnAll topic c \<Longrightarrow> subscribedOnAll topic c'"
  unfolding grows_def subscribedOnAll_def using sameShape_fields(5) [of c c'] by fastforce

lemma subscribeFunc_normal:
  assumes "ext_ok E" and "severalConnections c" and "\<not> sharedSubscriptionPredicate (options c) topic"
  shows "\<exists>e c'. subscribeFunc E ctx topic cb opts c = (Return e, c') \<and> solid e \<and> states c' = states c"
proof -
  let ?xs = "mapValues (valuesOrder E) (mqttClients c)"
  have wf: "wfClient c" and mm: "multiMode c" and ne: "orderedClients c \<noteq> []"
    using assms(2) by (simp_all add: severalConnections_def)
  have pos: "0 < length ?xs"
    using wfClient_values(2) [OF wf assms(1)] ne by (metis length_greater_0_conv set_empty)
  then have idx: "rand_Intn E (length ?xs) < length ?xs" using assms(1) by simp
  show ?thesis
    using assms(1,3) mm ne wfClient_nonempty [OF wf] pos sliceIndex_nat [OF idx]
    by (auto simp: subscribeFunc_def Let_def execute_multi execMultiConn_def execOpt_defs execOne_def
        callClientIDCallback_def solid_handleToken split: option.split)
qed

lemma subscribeFunc_several:
  assumes "ext_ok E" and "severalConnections c"
  shows "\<exists>e c'. subscribeFunc E ctx topic cb opts c = (Return e, c') \<and> solid e \<and> grows c c' \<and>
     (sharedSubscriptionPredicate (options c) topic \<longrightarrow> e = None \<longrightarrow> subscribedOnAll topic c')"
proof (cases "sharedSubscriptionPredicate (options c) topic")
  case False
  then show ?thesis
    using subscribeFunc_normal [OF assms False, of ctx cb opts]
      subscribeFunc_sameShape [of c E ctx topic cb opts] by (auto simp: grows_def)
next
  case True
  have sev: "wfClient c" "multiMode c" "orderedClients c \<noteq> []"
    using assms(2) by (simp_all add: severalConnections_def)
  obtain r c' where run: "subscribeFunc E ctx topic cb opts c = (r, c')" by fastforce
  obtain tr where ret: "is_Return r" "r = Return None \<longleftrightarrow> subscribedOnAll topic c'"
    and st: "\<And>a. states c' a = (if a \<in> set (orderedClients c) \<and> topic \<in> subsCalled (states c' a)
        then (states c a)\<lparr>subsCalled := insert topic (subsCalled (states c a))\<rparr> else states c a)"
    by (rule once_fan [OF assms(1) sev(1) solid_sentinels(2) run [unfolded subscribeFunc_shared [OF sev True]]])
      (rule that)
  have "subsCalled (states c a) \<subseteq> subsCalled (states c' a)" for a
    by (subst st) auto
  then have "grows c c'" using subscribeFunc_sameShape [of c E ctx topic cb opts] run by (simp add: grows_def)
  moreover have "solid (returned r)"
  proof -
    have "\<exists>es. r = Return (aggregate es)"
      using once.fan [OF assms(1) wfClient_values(1) [OF sev(1) assms(1)] solid_sentinels(2), of topic ctx _ c]
        run [unfolded subscribeFunc_shared [OF sev True]] by (metis prod.inject)
    then show ?thesis by auto
  qed
  ultimately show ?thesis using run ret by (cases r) auto
qed

section \<open>Resuming the registry\<close>

abbreviation resumeOne :: "ext \<Rightarrow> subscriptionMeta \<Rightarrow> ('v, 'x) client_scheme act" where
  "resumeOne E tm \<equiv> subscribeFunc E context_Background (smTopic tm) (smCallback tm) (smOptions tm)"

lemma resume_calls:
  assumes "ext_ok E" and "severalConnections c" and "\<forall>i\<in>set is. i < length xs"
    and "length rs = length xs" and "\<forall>r\<in>set rs. is_Return r \<and> solid (returned r)" and "distinct is"
  shows "\<exists>rs' c'. callsInOrder (resumeOne E) xs is rs c = (rs', c') \<and> grows c c' \<and>
     length rs' = length xs \<and> (\<forall>r\<in>set rs'. is_Return r \<and> solid (returned r)) \<and>
     (\<forall>j<length xs. j \<notin> set is \<longrightarrow> rs' ! j = rs ! j) \<and>
     (\<forall>i\<in>set is. sharedSubscriptionPredicate (options c) (smTopic (xs ! i)) \<longrightarrow>
        rs' ! i = Return None \<longrightarrow> subscribedOnAll (smTopic (xs ! i)) c')"
  using assms(2-6)
proof (induction "is" arbitrary: rs c)
  case Nil
  then show ?case by simp
next
  case (Cons i "is")
  obtain e c1 where one: "resumeOne E (xs ! i) c = (Return e, c1)" "solid e" "grows c c1"
      "sharedSubscriptionPredicate (options c) (smTopic (xs ! i)) \<longrightarrow> e = None \<longrightarrow>
        subscribedOnAll (smTopic (xs ! i)) c1"
    using subscribeFunc_several [OF assms(1) Cons.prems(1)] by blast
  have o1: "options c1 = options c" using one(3) sameShape_fields(1) unfolding grows_def by blast
  have "\<forall>r\<in>set (rs[i := Return e]). is_Return r \<and> solid (returned r)"
    using Cons.prems(4) one(2) set_update_subset_insert [of rs i "Return e"] by auto
  then obtain rs' c' where IH: "callsInOrder (resumeOne E) xs is (rs[i := Return e]) c1 = (rs', c')"
      "grows c1 c'" "length rs' = length xs" "\<forall>r\<in>set rs'. is_Return r \<and> solid (returned r)"
      "\<forall>j<length xs. j \<notin> set is \<longrightarrow> rs' ! j = rs[i := Return e] ! j"
      "\<forall>j\<in>set is. sharedSubscriptionPredicate (options c1) (smTopic (xs ! j)) \<longrightarrow>
        rs' ! j = Return None \<longrightarrow> subscribedOnAll (smTopic (xs ! j)) c'"
    using Cons.IH [OF grows_several [OF one(3) Cons.prems(1)], of "rs[i := Return e]"] Cons.prems by auto
  have "rs' ! i = Return e" using IH(5) Cons.prems by simp
  then have "sharedSubscriptionPredicate (options c) (smTopic (xs ! i)) \<longrightarrow> rs' ! i = Return None \<longrightarrow>
      subscribedOnAll (smTopic (xs ! i)) c'"
    using one(4) grows_subscribed [OF IH(2)] by simp
  with IH one(1) o1 grows_trans [OF one(3) IH(2)] show ?case by auto
qed

lemma resume_success:
  assumes ok: "ext_ok E" and sev: "severalConnections c"
    and run: "resumeSubscriptions newHandlers E c = (Return None, c')"
    and reg: "(k, tm) \<in> set (subscriptions c)" and sh: "sharedSubscriptionPredicate (options c) (smTopic tm)"
  shows "subscribedOnAll (smTopic tm) c'"
proof -
  let ?xs = "mapValues (valuesOrder E) (subscriptions c)" and ?is = "concOrder E (length (mapValues (valuesOrder E) (subscriptions c)))"
  have dk: "distinct_keys (subscriptions c)"
    using sev by (simp add: severalConnections_def wfClient_def)
  have "is": "distinct ?is" "set ?is = {0..<length ?xs}" using ok by (simp_all add: perm_simps)
  obtain rs c2 where calls: "callsInOrder (resumeOne E) ?xs ?is (replicate (length ?xs) (Return None)) c = (rs, c2)"
      "length rs = length ?xs" "\<forall>r\<in>set rs. is_Return r \<and> solid (returned r)"
      "\<forall>i\<in>set ?is. sharedSubscriptionPredicate (options c) (smTopic (?xs ! i)) \<longrightarrow>
        rs ! i = Return None \<longrightarrow> subscribedOnAll (smTopic (?xs ! i)) c2"
    using resume_calls [OF ok sev, of ?is ?xs "replicate (length ?xs) (Return None)"] "is"
    by (auto simp: solid_def)
  have "resumeSubscriptions newHandlers E c = (Return (aggregate (map returned rs)), c2)"
    using reg calls ok
    by (auto simp: resumeSubscriptions_def fanOut_def sliceCalls_def joinOutcomes_Return reduceErrors_aggregate)
  with run have agg: "aggregate (map returned rs) = None" and c2: "c2 = c'" by auto
  have "\<forall>r\<in>set rs. returned r = None"
    using agg calls(3) aggregate_None_iff [of "map returned rs"] by auto
  then have "\<forall>r\<in>set rs. r = Return None" using calls(3) by (metis outcome.collapse(1))
  moreover have "tm \<in> set ?xs"
    unfolding set_mapValues [OF dk ext_okD(4) [OF ok]] using image_eqI [OF _ reg, of tm snd] by simp
  then obtain i where i: "i < length ?xs" "?xs ! i = tm" by (metis in_set_conv_nth)
  ultimately have "rs ! i = Return None" using calls(2) by simp
  with calls(4) i sh "is"(2) c2 show ?thesis by auto
qed

section \<open>A client with a registry\<close>

definition refRegistered :: "string client" where
  "refRegistered = refMulti\<lparr>subscriptions :=
     [(''$share/g/t'', \<lparr>smTopic = ''$share/g/t'', smOptions = [], smCallback = AppHandler 3\<rparr>)]\<rparr>"

lemma refRegistered_update:
  "fst (attemptConnections newHandlers refExt [TCPAddress ''h'' 1] refRegistered) = Return None"
  "orderedClients (snd (attemptConnections newHandlers refExt [TCPAddress ''h'' 1] refRegistered)) \<noteq> []"
  by code_simp+

definition refSingleRegistered :: "string client" where
  "refSingleRegistered = refSingle\<lparr>subscriptions :=
     [(''t'', \<lparr>smTopic = ''t'', smOptions = [QOSOption QOSOne], smCallback = AppHandler 3\<rparr>)]\<rparr>"

lemma wfClient_refSingleRegistered: "wfClient refSingleRegistered"
  unfolding refSingleRegistered_def by (simp add: wfClient_registry wfRegistry_def)

lemma wfClient_refRegistered: "wfClient refRegistered"
  unfolding refRegistered_def by (simp add: wfClient_registry wfRegistry_def)

section \<open>Properties\<close>

text \<open>
  C23: When an address update in multi-connection mode succeeds and the client has
  connections afterwards, every shared topic of the registry is subscribed on every one of
  them.
\<close>

theorem update_resumes_shared:
  assumes "ext_ok E" and "wfClient c" and "multiConnectionMode (options c)"
    and "attemptConnections newHandlers E addrs c = (Return None, c')" and "orderedClients c' \<noteq> []"
    and "map_of (subscriptions c) topic = Some tm" and "sharedSubscriptionPredicate (options c) topic"
  shows "subscribedOnAll topic c'"
proof -
  obtain cl c2 where mc: "multipleClients E addrs c = (cl, c2)" by fastforce
  let ?r = "reloadClients E cl c2"
  have run: "resumeSubscriptions newHandlers E ?r = (Return None, c')"
    using assms(3,4) mc by (simp add: attemptConnections_def attemptMultiConnections_def)
  note wf2 = wfClient_multipleClients [OF assms(1,2) mc]
  have fields: "options ?r = options c" "subscriptions ?r = subscriptions c"
    using multi_update_fields [OF assms(1) mc] by simp_all
  have wfr: "wfClient ?r" using wfClient_reloadClients [OF assms(1) wf2(1,2)] .
  have "sameShape ?r c'" using attemptConnections_multi [OF assms(3) mc] assms(4) by simp
  then have "orderedClients ?r \<noteq> []" using assms(5) sameShape_fields(5) by metis
  then have sev: "severalConnections ?r" using wfr assms(3) fields by (simp add: severalConnections_def)
  have top: "smTopic tm = topic"
    using assms(2,6) by (auto simp: wfClient_def dest: map_of_SomeD)
  have "(topic, tm) \<in> set (subscriptions ?r)" using assms(6) fields by (simp add: map_of_SomeD)
  from resume_success [OF assms(1) sev run this] show ?thesis using top fields assms(7) by simp
qed

theorem update_resumes_shared_witness:
  "subscribedOnAll ''$share/g/t'' (snd (attemptConnections newHandlers refExt [TCPAddress ''h'' 1] refRegistered))"
proof (rule update_resumes_shared [OF ext_ok_refExt wfClient_refRegistered])
  show "attemptConnections newHandlers refExt [TCPAddress ''h'' 1] refRegistered =
      (Return None, snd (attemptConnections newHandlers refExt [TCPAddress ''h'' 1] refRegistered))"
    using refRegistered_update(1) by (metis prod.collapse)
  show "sharedSubscriptionPredicate (options refRegistered) ''$share/g/t''" by code_simp
qed (fact refRegistered_update(2) | simp add: refRegistered_def)+



end
