(* ===== verification/Multiple.thy ===== *)
theory Multiple
  imports Lifecycle
begin

text \<open>
  Subscribing to several topics at once: the split by the predicate of shared topics, one
  request with all shared topics on every connection and one with the others on a single
  connection, made concurrently, and the registry afterwards.
\<close>

section \<open>One request on one connection, or on all\<close>

definition randomConnection :: "ext \<Rightarrow> ('v, 'x) client_scheme \<Rightarrow> addr" where
  "randomConnection E c = (let xs = mapValues (valuesOrder E) (mqttClients c) in xs ! rand_Intn E (length xs))"

lemma randomConnection_trace [simp]: "randomConnection E (c\<lparr>trace := tr\<rparr>) = randomConnection E c"
  by (simp add: randomConnection_def)

lemma execute_random:
  assumes "ext_ok E" and "wfClient c" and "multiMode c" and "orderedClients c \<noteq> []"
    and "clientIDCallbackKey ctx = None"
  shows "randomConnection E c \<in> set (orderedClients c)"
    and "execute E ctx (pahoRequest E ctx te mk) execOneRandom c =
       (let tr = trace c @ [mk (isClient (states c (randomConnection E c)))]
        in (Return (handleToken (options c) ctx (respond E tr) te), c\<lparr>trace := tr\<rparr>))"
proof -
  let ?xs = "mapValues (valuesOrder E) (mqttClients c)"
  note vals = wfClient_values [OF assms(2,1)]
  have pos: "0 < length ?xs" using vals(2) assms(4) by (metis length_greater_0_conv set_empty)
  then have idx: "rand_Intn E (length ?xs) < length ?xs" using assms(1) by simp
  then show "randomConnection E c \<in> set (orderedClients c)"
    using vals(2) nth_mem by (auto simp: randomConnection_def Let_def)
  show "execute E ctx (pahoRequest E ctx te mk) execOneRandom c =
       (let tr = trace c @ [mk (isClient (states c (randomConnection E c)))]
        in (Return (handleToken (options c) ctx (respond E tr) te), c\<lparr>trace := tr\<rparr>))"
    using assms(3-5) wfClient_nonempty [OF assms(2)] pos idx sliceIndex_nat [OF idx]
    by (simp add: Let_def execute_multi execMultiConn_def execOpt_defs execOne_def randomConnection_def
        callClientIDCallback_def invokeClientIDCallback_def)
qed

lemma execute_all_request:
  assumes "ext_ok E" and "wfClient c" and "multiMode c" and "orderedClients c \<noteq> []" and "solid (Some te)"
  obtains e tr where "execute E ctx (pahoRequest E ctx te mk) execAll c = (Return e, c\<lparr>trace := trace c @ tr\<rparr>)"
    "mset tr = mset (map (\<lambda>a. mk (isClient (states c a))) (orderedClients c))" "solid e"
proof -
  let ?call = "\<lambda>a c. pahoRequest E ctx te mk (Some (isClient (states c a))) c"
  let ?xs = "mapValues (valuesOrder E) (mqttClients c)"
  obtain r c' where run: "fanOut E ?call ?xs c = (r, c')" by fastforce
  obtain tr e where tr: "trace c' = trace c @ tr" "mset tr = mset (plain.requests mk c (orderedClients c))"
      and os: "onlySubs c c'" "is_Return r"
    and srv: "\<And>a. a \<in> set (orderedClients c) \<Longrightarrow>
      plain.served E ctx te (options c) (states c a) (Return (e a)) (states c' a)"
    and other: "\<And>a. a \<notin> set (orderedClients c) \<Longrightarrow> states c' a = states c a"
    by (rule plain.fan_clients [OF assms(1,2,5) run]) (rule that)
  have "states c' = states c"
    using srv other by (auto simp: fun_eq_iff plain.served_def)
  then have c': "c' = c\<lparr>trace := trace c @ tr\<rparr>"
    using os(1) tr(1) unfolding onlySubs_def by (cases c; cases c') simp
  obtain es where "r = Return (aggregate es)"
    using plain.fan [OF assms(1) wfClient_values(1) [OF assms(2,1)] assms(5), of ctx mk c] run by auto
  then show thesis
    using that [of "aggregate es" tr] run c' tr(2) execute_all [of c E ctx "pahoRequest E ctx te mk"] assms(3,4)
      wfClient_nonempty [OF assms(2)] by (simp add: plain.requests_def)
qed

section \<open>Executions that append blocks of requests\<close>

text \<open>
  Calls that change nothing but the trace, each appending a block with the requests \<open>g i\<close>: all of
  them together append the requests of all blocks, in whatever order they are made.
\<close>

lemma blocks:
  assumes "\<And>i tr. i \<in> set is \<Longrightarrow> \<exists>e t. f (xs ! i) (c\<lparr>trace := tr\<rparr>) = (Return e, c\<lparr>trace := tr @ t\<rparr>) \<and> mset t = g i \<and> solid e"
    and "\<forall>i\<in>set is. i < length rs" and "\<forall>r\<in>set rs. is_Return r \<and> solid (returned r)"
  shows "\<exists>rs' t. callsInOrder f xs is rs (c\<lparr>trace := tr\<rparr>) = (rs', c\<lparr>trace := tr @ t\<rparr>) \<and>
     mset t = sum_list (map g is) \<and> (\<forall>r\<in>set rs'. is_Return r \<and> solid (returned r))"
  using assms
proof (induction "is" arbitrary: rs tr)
  case Nil
  then show ?case by (intro exI [of _ rs] exI [of _ "[]"]) simp
next
  case (Cons i "is")
  obtain e t where step: "f (xs ! i) (c\<lparr>trace := tr\<rparr>) = (Return e, c\<lparr>trace := tr @ t\<rparr>)" "mset t = g i" "solid e"
    using Cons.prems(1) [OF list.set_intros(1), of tr] by blast
  have "\<forall>r\<in>set (rs[i := Return e]). is_Return r \<and> solid (returned r)"
    using Cons.prems(3) step(3) by (auto dest!: set_update_subset_insert [THEN subsetD])
  then obtain rs' t' where "callsInOrder f xs is (rs[i := Return e]) (c\<lparr>trace := tr @ t\<rparr>) = (rs', c\<lparr>trace := (tr @ t) @ t'\<rparr>)"
      "mset t' = sum_list (map g is)" "\<forall>r\<in>set rs'. is_Return r \<and> solid (returned r)"
    using Cons.IH [of "rs[i := Return e]" "tr @ t"] Cons.prems(1,2) by auto
  with step show ?case by (intro exI [of _ rs'] exI [of _ "t @ t'"]) simp
qed

lemma fanOut_blocks:
  assumes "ext_ok E"
    and "\<And>i tr. i < length xs \<Longrightarrow> \<exists>e t. f (xs ! i) (c\<lparr>trace := tr\<rparr>) = (Return e, c\<lparr>trace := tr @ t\<rparr>) \<and> mset t = g i \<and> solid e"
  obtains e t where "fanOut E f xs c = (Return e, c\<lparr>trace := trace c @ t\<rparr>)"
    "mset t = sum_list (map g [0..<length xs])" "solid e"
proof -
  let ?is = "concOrder E (length xs)"
  have "is": "set ?is = {0..<length xs}" "mset ?is = mset [0..<length xs]"
    using assms(1) ext_okD(2) [OF assms(1)] by (simp_all add: perm_simps perm_order_def)
  obtain rs t where run: "callsInOrder f xs ?is (replicate (length xs) (Return None)) (c\<lparr>trace := trace c\<rparr>) =
      (rs, c\<lparr>trace := trace c @ t\<rparr>)" "mset t = sum_list (map g ?is)" "\<forall>r\<in>set rs. is_Return r \<and> solid (returned r)"
    using blocks [of ?is f xs c g "replicate (length xs) (Return None)" "trace c"] assms(2) "is"(1) by auto
  have "sum_list (map g ?is) = sum_list (map g [0..<length xs])"
    using "is"(2) by (metis mset_map sum_mset_sum_list)
  moreover have "fanOut E f xs c = (Return (aggregate (map returned rs)), c\<lparr>trace := trace c @ t\<rparr>)"
    using run(1,3) assms(1) by (simp add: fanOut_def sliceCalls_def joinOutcomes_Return reduceErrors_aggregate)
  ultimately show thesis using that run(2) by simp
qed

section \<open>The requests of a multiple subscription\<close>

definition multipleRequests ::
  "ext \<Rightarrow> (string, byte) gomap \<Rightarrow> (string, byte) gomap \<Rightarrow> MessageHandler \<Rightarrow> ('v, 'x) client_scheme \<Rightarrow> event list" where
  "multipleRequests E shared normal cb c =
     (if shared = [] then [] else map (\<lambda>a. MSubscribeMultiple (isClient (states c a)) shared cb) (orderedClients c)) @
     (if normal = [] then [] else [MSubscribeMultiple (isClient (states c (randomConnection E c))) normal cb])"

text \<open>The two calls of a multiple subscription, from any state that differs in its trace only.\<close>

abbreviation multipleOn ::
  "ext \<Rightarrow> gocontext \<Rightarrow> MessageHandler \<Rightarrow> (string, byte) gomap \<Rightarrow>
   ('v, 'x) client_scheme execOpt \<Rightarrow> ('v, 'x) client_scheme act" where
  "multipleOn E ctx h subs \<equiv> execute E ctx
     (pahoRequest E ctx ErrSubscribeMultipleTimeout (\<lambda>m. MSubscribeMultiple m subs h))"

lemma multiple_all:
  assumes "ext_ok E" and "wfClient c" and "multiMode c" and "orderedClients c \<noteq> []"
  shows "\<exists>e t. multipleOn E ctx h subs execAll (c\<lparr>trace := tr\<rparr>) = (Return e, c\<lparr>trace := tr @ t\<rparr>) \<and>
    mset t = mset (map (\<lambda>a. MSubscribeMultiple (isClient (states c a)) subs h) (orderedClients c)) \<and> solid e"
proof -
  let ?c = "c\<lparr>trace := tr\<rparr>"
  have pre: "wfClient ?c" "multiMode ?c" "orderedClients ?c \<noteq> []" using assms(2-4) by (simp_all add: wfClient_def)
  obtain e t where "multipleOn E ctx h subs execAll ?c = (Return e, ?c\<lparr>trace := trace ?c @ t\<rparr>)"
      "mset t = mset (map (\<lambda>a. MSubscribeMultiple (isClient (states ?c a)) subs h) (orderedClients ?c))" "solid e"
    by (rule execute_all_request [OF assms(1) pre solid_sentinels(4)])
  then show ?thesis by (intro exI [of _ e] exI [of _ t]) simp
qed

lemma multiple_random:
  assumes "ext_ok E" and "wfClient c" and "multiMode c" and "orderedClients c \<noteq> []" and "clientIDCallbackKey ctx = None"
  shows "\<exists>e t. multipleOn E ctx h subs execOneRandom (c\<lparr>trace := tr\<rparr>) = (Return e, c\<lparr>trace := tr @ t\<rparr>) \<and>
    mset t = {#MSubscribeMultiple (isClient (states c (randomConnection E c))) subs h#} \<and> solid e"
  using execute_random(2) [OF assms(1), of "c\<lparr>trace := tr\<rparr>" ctx ErrSubscribeMultipleTimeout "\<lambda>m. MSubscribeMultiple m subs h"] assms
  by (auto simp: wfClient_def Let_def solid_handleToken)

lemma subscribeMultipleFunc_requests:
  fixes c :: "('v, 'x) client_scheme"
  assumes ok: "ext_ok E" and conn: "wfClient c" "multiMode c" "orderedClients c \<noteq> []"
    and cb: "clientIDCallbackKey ctx = None"
    and split: "filterSubs E tq (sharedSubscriptionPredicate (options c)) = (shared, normal)"
  obtains e tr where "subscribeMultipleFunc E ctx tq h c = (Return e, c\<lparr>trace := trace c @ tr\<rparr>)"
    "mset tr = mset (multipleRequests E shared normal h c)" "solid e"
proof -
  let ?S = "(multipleOn E ctx h shared execAll :: ('v, 'x) client_scheme \<Rightarrow> _,
    mset (map (\<lambda>a. MSubscribeMultiple (isClient (states c a)) shared h) (orderedClients c)))"
  let ?N = "(multipleOn E ctx h normal execOneRandom :: ('v, 'x) client_scheme \<Rightarrow> _,
    {#MSubscribeMultiple (isClient (states c (randomConnection E c))) normal h#})"
  define ms where "ms = (if shared = [] then [] else [?S]) @ (if normal = [] then [] else [?N])"
  have each: "\<exists>e t. (map fst ms ! i) (c\<lparr>trace := tr\<rparr>) = (Return e, c\<lparr>trace := tr @ t\<rparr>) \<and> mset t = snd (ms ! i) \<and> solid e"
    if "i < length (map fst ms)" for i tr
  proof -
    have fst: "map fst ms ! i = fst (ms ! i)" using that by simp
    have "ms ! i \<in> set ms" using that by (intro nth_mem) simp
    then have "ms ! i = ?S \<or> ms ! i = ?N" by (auto simp: ms_def split: if_splits)
    then show ?thesis unfolding fst
      by (elim disjE) (simp_all only: fst_conv snd_conv multiple_all [OF ok conn] multiple_random [OF ok conn cb])
  qed
  obtain e t where run: "fanOut E (\<lambda>f. f) (map fst ms) c = (Return e, c\<lparr>trace := trace c @ t\<rparr>)"
      and t: "mset t = sum_list (map (\<lambda>i. snd (ms ! i)) [0..<length (map fst ms)])" and sol: "solid e"
    by (rule fanOut_blocks [where f = "\<lambda>f. f" and xs = "map fst ms" and g = "\<lambda>i. snd (ms ! i)", OF ok each])
  have "map (\<lambda>i. snd (ms ! i)) [0..<length (map fst ms)] = map snd ms"
    by (rule nth_equalityI) simp_all
  then have "mset t = mset (multipleRequests E shared normal h c)"
    using t by (auto simp: multipleRequests_def ms_def)
  moreover have "subscribeMultipleFunc E ctx tq h c = fanOut E (\<lambda>f. f) (map fst ms) c"
    using split by (auto simp: subscribeMultipleFunc_def Let_def ms_def)
  ultimately show thesis using that run sol by simp
qed

lemma map_of_fold_entries:
  assumes "distinct (map fst es)"
  shows "map_of (fold (\<lambda>(k, v). AList.update k (F k v)) es m) =
     (\<lambda>k. case map_of es k of Some v \<Rightarrow> Some (F k v) | None \<Rightarrow> map_of m k)"
  using assms
proof (induction es arbitrary: m)
  case Nil
  then show ?case by simp
next
  case (Cons e es)
  obtain k v where e: "e = (k, v)" by (cases e)
  have "map_of es k = None" using Cons.prems e by (simp add: map_of_eq_None_iff)
  then show ?case
    using Cons.IH [of "AList.update k (F k v) m"] Cons.prems e
    by (auto simp: fun_eq_iff update_conv' split: option.split)
qed

section \<open>Properties\<close>



end
