(* ===== verification/PoolSpec.thy ===== *)
theory PoolSpec
  imports Connect
begin

text \<open>
  What a client with several connections promises, without its connection states, keys, locks and
  call orders: a pool of members with a turn, and a registry of subscriptions. Its calls are those
  of the application, the loss of a connection, and an update of the broker addresses.
\<close>

section \<open>The abstract pool\<close>

record pool =
  members :: "mclient list"
  turn :: nat
  registry :: "string \<Rightarrow> (QOSLevel \<times> MessageHandler) option"

datatype 'v call =
    CallPublish string 'v "Option list"
  | CallSubscribe string MessageHandler "Option list"
  | CallSubscribeMultiple "(string, QOSLevel) gomap" MessageHandler
  | CallUnsubscribe "string list"
  | CallStop
  | CallLost mclient goerror
  | CallUpdate "TCPAddress list"

text \<open>Calls that need a connection.\<close>

fun needsConnection :: "('v \<Rightarrow> goerror + bytes) \<Rightarrow> 'v call \<Rightarrow> bool" where
  "needsConnection enc (CallPublish topic msg opts) = (\<not> isl (enc msg))"
| "needsConnection enc (CallSubscribe topic h opts) = True"
| "needsConnection enc (CallUnsubscribe topics) = True"
| "needsConnection enc CallStop = True"
| "needsConnection enc _ = False"

text \<open>The requests for one half of several topics: on all members, or on one.\<close>

definition halfRequests :: "mclient list \<Rightarrow> (string, byte) gomap \<Rightarrow> MessageHandler \<Rightarrow> event list" where
  "halfRequests ms subs h = (if subs = [] then [] else map (\<lambda>m. MSubscribeMultiple m subs h) ms)"

text \<open>Every address gets a new client, which is asked to connect.\<close>

definition connections :: "(mclient \<times> mqttClientOptions) list \<Rightarrow> event list" where
  "connections new = concat (map (\<lambda>(m, o1). [NewMqttClient m o1, MConnect m]) new)"

text \<open>Subscriptions on members of topics in the registry, with their level and handler.\<close>

definition renewals :: "pool \<Rightarrow> event set" where
  "renewals p = {MSubscribe m topic q h | m topic q h. m \<in> set (members p) \<and> registry p topic = Some (q, h)}"

text \<open>
  The parameters are the encoder, the predicate of shared topics and the quiesce period. A step
  relates the pool, the call, the requests made, the error returned, and the pool afterwards.
\<close>

inductive contract ::
  "('v \<Rightarrow> goerror + bytes) \<Rightarrow> (string \<Rightarrow> bool) \<Rightarrow> 64 word \<Rightarrow> pool \<Rightarrow> 'v call \<Rightarrow> event list \<Rightarrow> err \<Rightarrow> pool \<Rightarrow> bool"
  for enc shared quiesce where
  unencodable:
    "enc msg = Inl e \<Longrightarrow> contract enc shared quiesce p (CallPublish topic msg opts) [] (Some e) p"
| uninitialized:
    "members p = [] \<Longrightarrow> needsConnection enc k \<Longrightarrow>
     contract enc shared quiesce p k [] (Some ErrClientNotInitialized) p"
| publish:
    "enc msg = Inr buf \<Longrightarrow> members p \<noteq> [] \<Longrightarrow>
     contract enc shared quiesce p (CallPublish topic msg opts)
       [MPublish (members p ! (turn p mod length (members p))) topic
          (qos (composeOptions opts)) (retained (composeOptions opts)) buf] e (p\<lparr>turn := turn p + 1\<rparr>)"
| subscribe_all:
    "shared topic \<Longrightarrow> members p \<noteq> [] \<Longrightarrow>
     mset tr \<subseteq># mset (map (\<lambda>m. MSubscribe m topic (qos (composeOptions opts)) h) (members p)) \<Longrightarrow>
     p' = (if e = None then p\<lparr>registry := (registry p)(topic \<mapsto> (qos (composeOptions opts), h))\<rparr> else p) \<Longrightarrow>
     contract enc shared quiesce p (CallSubscribe topic h opts) tr e p'"
| subscribe_one:
    "\<not> shared topic \<Longrightarrow> m \<in> set (members p) \<Longrightarrow>
     p' = (if e = None then p\<lparr>registry := (registry p)(topic \<mapsto> (qos (composeOptions opts), h))\<rparr> else p) \<Longrightarrow>
     contract enc shared quiesce p (CallSubscribe topic h opts)
       [MSubscribe m topic (qos (composeOptions opts)) h] e p'"
| unsubscribe:
    "members p \<noteq> [] \<Longrightarrow> mset tr = mset (map (\<lambda>m. MUnsubscribe m topics) (members p)) \<Longrightarrow>
     p' = (if e = None then p\<lparr>registry := (\<lambda>t. if t \<in> set topics then None else registry p t)\<rparr> else p) \<Longrightarrow>
     contract enc shared quiesce p (CallUnsubscribe topics) tr e p'"
| stop:
    "members p \<noteq> [] \<Longrightarrow> mset tr = mset (map (\<lambda>m. MDisconnect m quiesce) (members p)) \<Longrightarrow>
     contract enc shared quiesce p CallStop tr None (p\<lparr>members := []\<rparr>)"
| multiple_none:
    "contract enc shared quiesce p (CallSubscribeMultiple [] h) [] None p"
| multiple_uninitialized:
    "members p = [] \<Longrightarrow> tq \<noteq> [] \<Longrightarrow> contract enc shared quiesce p (CallSubscribeMultiple tq h) [] (Some e) p"
| multiple:
    "m \<in> set (members p) \<Longrightarrow> map_of ss = (\<lambda>t. if shared t then map_of tq t else None) \<Longrightarrow>
     map_of ns = (\<lambda>t. if shared t then None else map_of tq t) \<Longrightarrow>
     mset tr = mset (halfRequests (members p) ss h @ halfRequests [m] ns h) \<Longrightarrow>
     p' = (if e = None then p\<lparr>registry := (\<lambda>t. case map_of tq t of Some q \<Rightarrow> Some (q, h) | None \<Rightarrow> registry p t)\<rparr>
           else p) \<Longrightarrow>
     contract enc shared quiesce p (CallSubscribeMultiple tq h) tr e p'"
| lost:
    "tr = [] \<or> (\<exists>r. tr = [OnConnectionLost r e]) \<Longrightarrow>
     contract enc shared quiesce p (CallLost m e) tr None p"
| update_connected:
    "length new = length addrs \<Longrightarrow> mset ms = mset (map fst new) \<Longrightarrow> set tr \<subseteq> renewals (p\<lparr>members := ms\<rparr>) \<Longrightarrow>
     contract enc shared quiesce p (CallUpdate addrs) (connections new @ tr) e (p\<lparr>members := ms\<rparr>)"
| update_unconnected:
    "length new = length addrs \<Longrightarrow> set tr \<subseteq> renewals p \<Longrightarrow>
     contract enc shared quiesce p (CallUpdate addrs) (connections new @ tr) e p"

inductive contracts ::
  "('v \<Rightarrow> goerror + bytes) \<Rightarrow> (string \<Rightarrow> bool) \<Rightarrow> 64 word \<Rightarrow> pool \<Rightarrow> 'v call list \<Rightarrow> event list \<Rightarrow> err list \<Rightarrow> pool \<Rightarrow> bool"
  for enc shared quiesce where
  none: "contracts enc shared quiesce p [] [] [] p"
| more: "contract enc shared quiesce p k tr e p' \<Longrightarrow> contracts enc shared quiesce p' ks tr' es p'' \<Longrightarrow>
     contracts enc shared quiesce p (k # ks) (tr @ tr') (e # es) p''"

lemma turn_step:
  assumes "contract enc shared quiesce p k tr e p'"
  shows "turn p' \<le> turn p + 1"
  using assms by (induction rule: contract.induct) auto

end
