(* ===== verification/Simulation.thy ===== *)
theory Simulation
  imports Multiple Resume PoolSpec
begin

text \<open>
  Every call of a client with several connections is a step of the abstract pool: the pool a client
  stands for, and one simulation lemma for each call, connected or not.
\<close>

section \<open>The client as a pool\<close>

definition absPool :: "('v, 'x) client_scheme \<Rightarrow> pool" where
  "absPool c = \<lparr>members = rotationClients c, turn = unat (rrCounter c),
     registry = (\<lambda>t. map_option (\<lambda>s. (qos (composeOptions (smOptions s)), smCallback s)) (map_of (subscriptions c) t))\<rparr>"

definition encoded :: "gocontext \<Rightarrow> 'v clientOptions \<Rightarrow> 'v \<Rightarrow> goerror + bytes" where
  "encoded ctx o1 msg = (case newEncoder o1 ctx msg [] of (Some e, _) \<Rightarrow> Inl e | (None, buf) \<Rightarrow> Inr buf)"

fun serve :: "ext \<Rightarrow> gocontext \<Rightarrow> 'v call \<Rightarrow> ('v, 'x) client_scheme act" where
  "serve E ctx (CallPublish topic msg opts) c = Publish newHandlers E ctx topic msg opts c"
| "serve E ctx (CallSubscribe topic h opts) c = Subscribe newHandlers E ctx topic h opts c"
| "serve E ctx (CallSubscribeMultiple tq h) c = SubscribeMultiple newHandlers E ctx tq h c"
| "serve E ctx (CallUnsubscribe topics) c = Unsubscribe newHandlers E ctx topics c"
| "serve E ctx CallStop c = stopHandler newHandlers E c"
| "serve E ctx (CallLost m e) c = (Return None, connectionLostHandler E m e c)"
| "serve E ctx (CallUpdate addrs) c = attemptConnections newHandlers E addrs c"

fun serves :: "ext \<Rightarrow> gocontext \<Rightarrow> 'v call list \<Rightarrow> ('v, 'x) client_scheme \<Rightarrow> outcome list \<times> ('v, 'x) client_scheme" where
  "serves E ctx [] c = ([], c)"
| "serves E ctx (k # ks) c =
     (let (r, c') = serve E ctx k c; (rs, c'') = serves E ctx ks c' in (r # rs, c''))"

text \<open>A client of several connections; it may have been stopped.\<close>

definition managed :: "('v, 'x) client_scheme \<Rightarrow> bool" where
  "managed c \<longleftrightarrow> wfClient c \<and> multiMode c \<and> mqttClient c = None"

section \<open>Simulation\<close>

abbreviation simulates ::
  "ext \<Rightarrow> gocontext \<Rightarrow> 'v call \<Rightarrow> ('v, 'x) client_scheme \<Rightarrow> err \<Rightarrow> ('v, 'x) client_scheme \<Rightarrow> bool" where
  "simulates E ctx k c e c' \<equiv>
     managed c' \<and> options c' = options c \<and> (\<exists>tr. trace c' = trace c @ tr \<and>
       contract (encoded ctx (options c)) (sharedSubscriptionPredicate (options c))
         (disconnectQuiesce (options c)) (absPool c) k tr e (absPool c'))"

lemma members_absPool:
  "members (absPool c) = map (\<lambda>a. isClient (states c a)) (orderedClients c)"
  by (simp add: absPool_def rotationClients_def)

lemma execute_uninitialized:
  "managed c \<Longrightarrow> orderedClients c = [] \<Longrightarrow> execute E ctx f eo c = (Return (Some ErrClientNotInitialized), c)"
  using wfClient_nonempty [of c] by (auto simp: managed_def execute_def)

lemma absPool_registered:
  assumes "onlySubs c c'" and "map_of subs = (map_of (subscriptions c))(topic \<mapsto> s)"
  shows "absPool (c'\<lparr>subscriptions := subs\<rparr>) = (absPool c)\<lparr>registry := (registry (absPool c))(topic \<mapsto>
      (qos (composeOptions (smOptions s)), smCallback s))\<rparr>"
    and "absPool c' = absPool c"
  using assms onlySubs_fields [OF assms(1)] by (auto simp: absPool_def rotationClients_def fun_eq_iff)

lemma publish_simulates:
  assumes "managed c" and "clientIDCallbackKey ctx = None" and "unat (rrCounter c) < 2 ^ 63"
    and "newEncoder (options c) ctx msg [] = (None, buf)" and "orderedClients c \<noteq> []"
  shows "\<exists>e c'. serve E ctx (CallPublish topic msg opts) c = (Return e, c') \<and>
     simulates E ctx (CallPublish topic msg opts) c e c'"
proof -
  have m: "wfClient c" "multiMode c" using assms(1) by (simp_all add: managed_def)
  have enc: "encoded ctx (options c) msg = Inr buf" using assms(4) by (simp add: encoded_def)
  let ?m = "members (absPool c) ! (turn (absPool c) mod length (members (absPool c)))"
  let ?ev = "MPublish ?m topic (qos (composeOptions opts)) (retained (composeOptions opts)) buf"
  let ?c = "c\<lparr>rrCounter := rrCounter c + 1, trace := trace c @ [?ev]\<rparr>"
  let ?e = "handleToken (options c) ctx (respond E (trace c @ [?ev])) ErrPublishTimeout"
  have "isClient (states c (orderedClients c ! (unat (rrCounter c) mod length (orderedClients c)))) = ?m"
    using assms(5) by (simp add: absPool_def rotationClients_def)
  then have run: "serve E ctx (CallPublish topic msg opts) c = (Return ?e, ?c)"
    using publish_multi [OF m assms(5,3,4), of E topic opts] assms(2)
    by (simp add: Publish_def publishEvents_def invokeClientIDCallback_def Let_def)
  have "absPool ?c = (absPool c)\<lparr>turn := turn (absPool c) + 1\<rparr>"
    using unat_counter_step [OF assms(3)] by (simp add: absPool_def rotationClients_def)
  then have "contract (encoded ctx (options c)) (sharedSubscriptionPredicate (options c)) (disconnectQuiesce (options c))
      (absPool c) (CallPublish topic msg opts) [?ev] ?e (absPool ?c)"
    using contract.publish [where enc = "encoded ctx (options c)" and msg = msg and p = "absPool c", OF enc] assms(5)
    by (simp add: members_absPool)
  moreover have "managed ?c" using assms(1) by (simp add: managed_def wfClient_def)
  ultimately show ?thesis using run by auto
qed

lemma subscribeFunc_requests:
  assumes "ext_ok E" and "managed c" and "clientIDCallbackKey ctx = None" and "orderedClients c \<noteq> []"
  obtains e c1 tr where "subscribeFunc E ctx topic h opts c = (Return e, c1)" and "onlySubs c c1"
    and "trace c1 = trace c @ tr"
    and "if sharedSubscriptionPredicate (options c) topic
      then mset tr \<subseteq># mset (map (\<lambda>m. MSubscribe m topic (qos (composeOptions opts)) h) (rotationClients c))
      else \<exists>m\<in>set (rotationClients c). tr = [MSubscribe m topic (qos (composeOptions opts)) h]"
proof (cases "sharedSubscriptionPredicate (options c) topic")
  case True
  let ?mk = "\<lambda>m. MSubscribe m topic (qos (composeOptions opts)) h"
  have m: "wfClient c" "multiMode c" using assms(2) by (simp_all add: managed_def)
  obtain r c1 where run: "subscribeFunc E ctx topic h opts c = (r, c1)" by fastforce
  obtain tr where tr: "trace c1 = trace c @ tr" "mset tr = mset (map (\<lambda>a. ?mk (isClient (states c a))) (unsubscribedOn topic c))"
      "is_Return r" "onlySubs c c1"
    by (rule once_fan [OF assms(1) m(1) solid_sentinels(2) run [unfolded subscribeFunc_shared [OF m assms(4) True]]]) (rule that)
  obtain e where e: "r = Return e" using tr(3) by (cases r) auto
  have "mset tr \<subseteq># mset (map ?mk (rotationClients c))"
    unfolding tr(2) rotationClients_def unsubscribedOn_def
    by (simp add: multiset.map_comp comp_def image_mset_subseteq_mono [OF multiset_filter_subset])
  then show thesis using True by (intro that [OF run [unfolded e] tr(4,1)]) simp
next
  case False
  let ?a = "randomConnection E c"
  let ?tr = "[MSubscribe (isClient (states c ?a)) topic (qos (composeOptions opts)) h]"
  have m: "wfClient c" "multiMode c" using assms(2) by (simp_all add: managed_def)
  have run: "subscribeFunc E ctx topic h opts c =
      (Return (handleToken (options c) ctx (respond E (trace c @ ?tr)) ErrSubscribeTimeout), c\<lparr>trace := trace c @ ?tr\<rparr>)"
    using execute_random(2) [OF assms(1) m assms(4,3), of ErrSubscribeTimeout] False
    by (simp add: subscribeFunc_def Let_def)
  have "isClient (states c ?a) \<in> set (rotationClients c)"
    using execute_random(1) [OF assms(1) m assms(4,3)] by (simp add: rotationClients_def)
  then show thesis using False by (intro that [OF run onlySubs_trace]) auto
qed

lemma subscribe_simulates:
  assumes "ext_ok E" and "managed c" and "clientIDCallbackKey ctx = None" and "orderedClients c \<noteq> []"
  shows "\<exists>e c'. serve E ctx (CallSubscribe topic h opts) c = (Return e, c') \<and>
     simulates E ctx (CallSubscribe topic h opts) c e c'"
proof -
  have m: "wfClient c" "multiMode c" using assms(2) by (simp_all add: managed_def)
  let ?s = "\<lparr>smTopic = topic, smOptions = opts, smCallback = h\<rparr>"
  let ?p = "\<lambda>e. if e = None then (absPool c)\<lparr>registry := (registry (absPool c))(topic \<mapsto> (qos (composeOptions opts), h))\<rparr> else absPool c"
  obtain e c1 tr where run: "subscribeFunc E ctx topic h opts c = (Return e, c1)" and os: "onlySubs c c1"
      and tr: "trace c1 = trace c @ tr"
      and req: "if sharedSubscriptionPredicate (options c) topic
        then mset tr \<subseteq># mset (map (\<lambda>m. MSubscribe m topic (qos (composeOptions opts)) h) (rotationClients c))
        else \<exists>m\<in>set (rotationClients c). tr = [MSubscribe m topic (qos (composeOptions opts)) h]"
    by (rule subscribeFunc_requests [OF assms])
  let ?c = "if e = None then c1\<lparr>subscriptions := AList.update topic ?s (subscriptions c1)\<rparr> else c1"
  have serve: "serve E ctx (CallSubscribe topic h opts) c = (Return e, ?c)"
    using Subscribe_eq [OF run] by simp
  have abs: "absPool ?c = ?p e"
    using absPool_registered [OF os, of "AList.update topic ?s (subscriptions c1)" topic ?s] onlySubs_fields(2) [OF os]
    by (simp add: update_conv')
  have mem: "members (absPool c) = rotationClients c" "members (absPool c) \<noteq> []"
    using assms(4) by (simp_all add: absPool_def rotationClients_def)
  have "contract (encoded ctx (options c)) (sharedSubscriptionPredicate (options c))
      (disconnectQuiesce (options c)) (absPool c) (CallSubscribe topic h opts) tr e (absPool ?c)"
  proof (cases "sharedSubscriptionPredicate (options c) topic")
    case True
    with req mem(1) have "mset tr \<subseteq># mset (map (\<lambda>m. MSubscribe m topic (qos (composeOptions opts)) h) (members (absPool c)))"
      by simp
    from contract.subscribe_all [where shared = "sharedSubscriptionPredicate (options c)", OF True mem(2) this abs]
    show ?thesis .
  next
    case False
    with req mem(1) obtain m where "m \<in> set (members (absPool c))"
      and t: "tr = [MSubscribe m topic (qos (composeOptions opts)) h]" by auto
    from contract.subscribe_one [where shared = "sharedSubscriptionPredicate (options c)", OF False this(1) abs]
    show ?thesis unfolding t .
  qed
  moreover have "wfClient (snd (serve E ctx (CallSubscribe topic h opts) c))"
    using wfClient_Subscribe [OF okSubscriber_newHandlers assms(1) m(1)] by simp
  then have "managed ?c" using serve m(2) assms(2) onlySubs_fields(1,3) [OF os] by (auto simp: managed_def)
  ultimately show ?thesis using serve tr onlySubs_fields(1) [OF os] by auto
qed

lemma unsubscribe_simulates:
  assumes "ext_ok E" and "managed c" and "orderedClients c \<noteq> []"
  shows "\<exists>e c'. serve E ctx (CallUnsubscribe topics) c = (Return e, c') \<and>
     simulates E ctx (CallUnsubscribe topics) c e c'"
proof -
  have m: "wfClient c" "multiMode c" using assms(2) by (simp_all add: managed_def)
  obtain r c1 where run: "unsubscriberHandler E ctx topics c = (r, c1)" by fastforce
  obtain tr where tr: "trace c1 = trace c @ tr"
      "mset tr = mset (remove.requests (\<lambda>m. MUnsubscribe m topics) c (orderedClients c))"
      "onlySubs c c1" "is_Return r"
    by (rule remove.fan_clients [OF assms(1) m(1) solid_sentinels(3) run [unfolded unsubscriberHandler_multi [OF m assms(3)]]])
      (rule that)
  obtain e where e: "r = Return e" using tr(4) by (cases r) auto
  note same = onlySubs_fields [OF tr(3)]
  let ?c = "if e = None then c1\<lparr>subscriptions := fold AList.delete topics (subscriptions c1)\<rparr> else c1"
  let ?p = "if e = None then (absPool c)\<lparr>registry := (\<lambda>t. if t \<in> set topics then None else registry (absPool c) t)\<rparr> else absPool c"
  have serve: "serve E ctx (CallUnsubscribe topics) c = (Return e, ?c)"
    using Unsubscribe_eq [OF run] e by simp
  have "distinct_keys (subscriptions c1)" using m(1) same(2) by (simp add: wfClient_def)
  then have abs: "absPool ?c = ?p"
    using same by (auto simp: absPool_def rotationClients_def gm.lookup_fold_delete fun_eq_iff)
  have req: "mset tr = mset (map (\<lambda>m. MUnsubscribe m topics) (members (absPool c)))"
    using tr(2) by (simp add: remove.requests_def members_absPool multiset.map_comp comp_def)
  have "wfClient (snd (serve E ctx (CallUnsubscribe topics) c))"
    using wfClient_Unsubscribe okHandlers_newHandlers assms(1) m(1) unfolding serve.simps okHandlers_def by blast
  then have "managed ?c" using serve m(2) assms(2) same(1,3) by (auto simp: managed_def)
  moreover have "contract (encoded ctx (options c)) (sharedSubscriptionPredicate (options c))
      (disconnectQuiesce (options c)) (absPool c) (CallUnsubscribe topics) tr e (absPool ?c)"
    using assms(3) by (intro contract.unsubscribe [OF _ req abs]) (simp add: members_absPool)
  ultimately show ?thesis using serve tr(1) same(1) by auto
qed

lemma stop_simulates:
  assumes "ext_ok E" and "managed c" and "orderedClients c \<noteq> []"
  shows "\<exists>e c'. serve E ctx CallStop c = (Return e, c') \<and> simulates E ctx CallStop c e c'"
proof -
  have m: "wfClient c" "multiMode c" using assms(2) by (simp_all add: managed_def)
  obtain tr where tr: "mset tr = mset (map (\<lambda>a. MDisconnect (isClient (states c a)) (disconnectQuiesce (options c))) (orderedClients c))"
      and run: "stop E c = (Return None, c\<lparr>mqttClient := None, mqttClients := [], orderedClients := [],
       stopInfoEmitter := map_option (\<lambda>_. True) (stopInfoEmitter c), trace := trace c @ tr\<rparr>)" (is "_ = (_, ?c)")
    by (rule stop_multi [OF assms(1) m assms(3)])
  have abs: "absPool ?c = (absPool c)\<lparr>members := []\<rparr>" by (simp add: absPool_def rotationClients_def)
  have ne: "members (absPool c) \<noteq> []" using assms(3) by (simp add: members_absPool)
  have "mset tr = mset (map (\<lambda>m. MDisconnect m (disconnectQuiesce (options c))) (members (absPool c)))"
    using tr by (simp add: members_absPool multiset.map_comp comp_def)
  then have "contract (encoded ctx (options c)) (sharedSubscriptionPredicate (options c))
      (disconnectQuiesce (options c)) (absPool c) CallStop tr None (absPool ?c)"
    unfolding abs by (rule contract.stop [OF ne])
  moreover have "managed ?c" using assms(2) by (simp add: managed_def wfClient_def)
  ultimately show ?thesis
    using run by (simp add: newHandlers_def stopHandlerFunc_def)
qed

text \<open>A client without connections rejects every call, and stays as it is.\<close>

lemma uninitialized_simulates:
  assumes "managed c" and "orderedClients c = []" and "needsConnection (encoded ctx (options c)) k"
  shows "\<exists>e c'. serve E ctx k c = (Return e, c') \<and> simulates E ctx k c e c'"
proof -
  note uninit = execute_uninitialized [OF assms(1,2)]
  have con: "contract (encoded ctx (options c)) (sharedSubscriptionPredicate (options c))
      (disconnectQuiesce (options c)) (absPool c) k [] (Some ErrClientNotInitialized) (absPool c)"
    using assms(2,3) by (intro contract.uninitialized) (simp_all add: members_absPool)
  obtain x where run: "serve E ctx k c = (Return (Some ErrClientNotInitialized), c\<lparr>stopInfoEmitter := x\<rparr>)"
  proof (cases k)
    case (CallPublish topic msg opts)
    then have "\<exists>buf. newEncoder (options c) ctx msg [] = (None, buf)"
      using assms(3) by (auto simp: encoded_def split: prod.splits option.splits)
    then show thesis
      using that [of "stopInfoEmitter c"] CallPublish uninit by (auto simp: Publish_def publishHandler_def Let_def)
  next
    case (CallSubscribe topic h opts)
    then show thesis
      using that [of "stopInfoEmitter c"] uninit by (simp add: Subscribe_def newHandlers_def subscriberFuncs_def subscribeFunc_def Let_def)
  next
    case (CallUnsubscribe topics)
    then show thesis
      using that [of "stopInfoEmitter c"] uninit by (simp add: Unsubscribe_def newHandlers_def unsubscriberHandler_def)
  next
    case CallStop
    then show thesis
      using that [of "map_option (\<lambda>_. True) (stopInfoEmitter c)"] uninit
      by (simp add: newHandlers_def stopHandlerFunc_def stop_def Let_def split: option.splits)
  qed (use assms(3) in simp_all)
  have "absPool (c\<lparr>stopInfoEmitter := x\<rparr>) = absPool c" "managed (c\<lparr>stopInfoEmitter := x\<rparr>)"
    using assms(1) by (simp_all add: absPool_def rotationClients_def managed_def wfClient_def)
  then show ?thesis using run con by simp
qed

section \<open>Several topics at once\<close>

lemma calls_fail:
  assumes "\<forall>x\<in>set xs. f x c = (Return (Some e), c)" and "\<forall>i\<in>set is. i < length xs" and "length rs = length xs"
  shows "\<exists>rs'. callsInOrder f xs is rs c = (rs', c) \<and> length rs' = length xs \<and>
     (\<forall>i<length xs. rs' ! i = (if i \<in> set is then Return (Some e) else rs ! i))"
  using assms(2,3)
proof (induction "is" arbitrary: rs)
  case (Cons i "is")
  then have "f (xs ! i) c = (Return (Some e), c)" using assms(1) by simp
  with Cons.IH [of "rs[i := Return (Some e)]"] Cons.prems show ?case by (auto simp: nth_list_update)
qed simp

lemma fanOut_fails:
  assumes "ext_ok E" and "\<forall>x\<in>set xs. f x c = (Return (Some e), c)" and "xs \<noteq> []" and "solid (Some e)"
  shows "\<exists>e'. fanOut E f xs c = (Return (Some e'), c)"
proof -
  have "set (concOrder E (length xs)) = {0..<length xs}" using assms(1) by (simp add: perm_simps)
  then obtain rs where rs: "callsInOrder f xs (concOrder E (length xs)) (replicate (length xs) (Return None)) c = (rs, c)"
      "length rs = length xs" "\<forall>i<length xs. rs ! i = Return (Some e)"
    using calls_fail [where f = f and xs = xs and c = c, OF assms(2), of "concOrder E (length xs)" "replicate (length xs) (Return None)"] by auto
  then have all: "\<forall>r\<in>set rs. r = Return (Some e)" by (metis in_set_conv_nth)
  moreover have "Some e \<in> set (map returned rs)"
    using all rs(2) assms(3) by (cases rs) auto
  moreover have "\<forall>x\<in>set (map returned rs). solid x" using all assms(4) by auto
  ultimately have "aggregate (map returned rs) \<noteq> None"
    using aggregate_None_iff [of "map returned rs"] by (metis option.discI)
  moreover have "\<forall>r\<in>set rs. is_Return r" using all by auto
  ultimately show ?thesis
    using rs(1) assms(1) by (simp add: fanOut_def sliceCalls_def joinOutcomes_Return reduceErrors_aggregate)
qed

lemma absPool_trace [simp]: "absPool (c\<lparr>trace := tr\<rparr>) = absPool c"
  by (simp add: absPool_def rotationClients_def)

lemma filterSubs_Nil: "ext_ok E \<Longrightarrow> filterSubs E [] p = ([], [])"
  using filterSubs_filter [of E "[]" p] by simp

lemma multiple_uninitialized_simulates:
  assumes "ext_ok E" and "managed c" and "orderedClients c = []" and "tq \<noteq> []" and "distinct_keys tq"
  shows "\<exists>e c'. serve E ctx (CallSubscribeMultiple tq h) c = (Return e, c') \<and>
     simulates E ctx (CallSubscribeMultiple tq h) c e c'"
proof -
  let ?p = "sharedSubscriptionPredicate (options c)"
  obtain ss ns where split: "filterSubs E tq ?p = (ss, ns)" by fastforce
  have halves: "map_of ss = (\<lambda>t. if ?p t then map_of tq t else None)" "map_of ns = (\<lambda>t. if ?p t then None else map_of tq t)"
    using filterSubs_partition [OF assms(1,5), of ?p] split by simp_all
  obtain t q where "map_of tq t = Some q" using assms(4) by (cases tq) (metis map_of_Cons_code(2) surj_pair)+
  then have "map_of ss t \<noteq> None \<or> map_of ns t \<noteq> None" using halves by (cases "?p t") simp_all
  then have ne: "ss \<noteq> [] \<or> ns \<noteq> []" by auto
  let ?exec = "\<lambda>subs eo c. execute E ctx (pahoRequest E ctx ErrSubscribeMultipleTimeout (\<lambda>m. MSubscribeMultiple m subs h)) eo c"
  let ?fs = "(if ss \<noteq> [] then [?exec ss execAll] else []) @ (if ns \<noteq> [] then [?exec ns execOneRandom] else [])"
  have "\<forall>f\<in>set ?fs. (\<lambda>f. f) f c = (Return (Some ErrClientNotInitialized), c)"
    using execute_uninitialized [OF assms(2,3)] by auto
  moreover have "?fs \<noteq> []" using ne by auto
  moreover have "solid (Some ErrClientNotInitialized)" by (simp add: sentinel_defs)
  ultimately obtain e where "fanOut E (\<lambda>f. f) ?fs c = (Return (Some e), c)"
    using fanOut_fails [where f = "\<lambda>f. f" and xs = ?fs and c = c, OF assms(1)] by blast
  then have "serve E ctx (CallSubscribeMultiple tq h) c = (Return (Some e), c)"
    using split by (simp add: SubscribeMultiple_def newHandlers_def subscriberFuncs_def subscribeMultipleFunc_def Let_def)
  moreover have "contract (encoded ctx (options c)) ?p (disconnectQuiesce (options c)) (absPool c)
      (CallSubscribeMultiple tq h) [] (Some e) (absPool c)"
    using assms(3,4) by (intro contract.multiple_uninitialized) (simp_all add: members_absPool)
  ultimately show ?thesis using assms(2) by auto
qed

lemma multiple_simulates:
  assumes "ext_ok E" and "managed c" and "clientIDCallbackKey ctx = None" and "orderedClients c \<noteq> []"
    and "distinct_keys tq"
  shows "\<exists>e c'. serve E ctx (CallSubscribeMultiple tq h) c = (Return e, c') \<and>
     simulates E ctx (CallSubscribeMultiple tq h) c e c'"
proof -
  have m: "wfClient c" "multiMode c" using assms(2) by (simp_all add: managed_def)
  let ?p = "sharedSubscriptionPredicate (options c)" and ?m = "isClient (states c (randomConnection E c))"
  obtain ss ns where split: "filterSubs E tq ?p = (ss, ns)" by fastforce
  have halves: "map_of ss = (\<lambda>t. if ?p t then map_of tq t else None)" "map_of ns = (\<lambda>t. if ?p t then None else map_of tq t)"
    using filterSubs_partition [OF assms(1,5), of ?p] split by simp_all
  obtain e tr where run: "subscribeMultipleFunc E ctx tq h c = (Return e, c\<lparr>trace := trace c @ tr\<rparr>)"
      and tr: "mset tr = mset (multipleRequests E ss ns h c)"
    by (rule subscribeMultipleFunc_requests [OF assms(1) m assms(4,3) split])
  let ?es = "mapEntries (rangeOrder E) tq" and ?c1 = "c\<lparr>trace := trace c @ tr\<rparr>"
  let ?subs = "fold (\<lambda>(topic, q). AList.update topic \<lparr>smTopic = topic, smOptions = [QOSOption q], smCallback = h\<rparr>) ?es (subscriptions c)"
  let ?c = "if e = None then ?c1\<lparr>subscriptions := ?subs\<rparr> else ?c1"
  have serve: "serve E ctx (CallSubscribeMultiple tq h) c = (Return e, ?c)"
    using run by (cases e) (simp_all add: SubscribeMultiple_def newHandlers_def subscriberFuncs_def)
  have "map_of ?subs = (\<lambda>t. case map_of tq t of
      Some q \<Rightarrow> Some \<lparr>smTopic = t, smOptions = [QOSOption q], smCallback = h\<rparr> | None \<Rightarrow> map_of (subscriptions c) t)"
    using map_of_fold_entries [OF mapEntries_keys [OF assms(5) ext_okD(5) [OF assms(1)]]]
    by (simp add: map_of_mapEntries [OF assms(5) ext_okD(5) [OF assms(1)]])
  then have abs: "absPool ?c = (if e = None then (absPool c)\<lparr>registry := (\<lambda>t. case map_of tq t of Some q \<Rightarrow> Some (q, h)
      | None \<Rightarrow> registry (absPool c) t)\<rparr> else absPool c)"
    by (auto simp: absPool_def rotationClients_def composeOptions_def fun_eq_iff split: option.splits)
  have mem: "?m \<in> set (members (absPool c))"
    using execute_random(1) [OF assms(1) m assms(4,3)] by (simp add: members_absPool)
  have "mset tr = mset (halfRequests (members (absPool c)) ss h @ halfRequests [?m] ns h)"
    using tr by (simp add: multipleRequests_def halfRequests_def members_absPool comp_def)
  from contract.multiple [where shared = ?p, OF mem halves this abs]
  have "contract (encoded ctx (options c)) ?p (disconnectQuiesce (options c)) (absPool c)
      (CallSubscribeMultiple tq h) tr e (absPool ?c)" .
  moreover have "wfClient (snd (serve E ctx (CallSubscribeMultiple tq h) c))"
    using wfClient_SubscribeMultiple okSubscriber_newHandlers assms(1) m(1) by simp
  then have "managed ?c" using serve assms(2) by (auto simp: managed_def)
  ultimately show ?thesis using serve by (intro exI [of _ e] exI [of _ ?c]) auto
qed

lemma multiple_none_simulates:
  assumes "ext_ok E" and "managed c"
  shows "\<exists>e c'. serve E ctx (CallSubscribeMultiple [] h) c = (Return e, c') \<and>
     simulates E ctx (CallSubscribeMultiple [] h) c e c'"
proof -
  have "fold (\<lambda>(topic, q). AList.update topic \<lparr>smTopic = topic, smOptions = [QOSOption q], smCallback = h\<rparr>)
      (mapEntries (rangeOrder E) []) (subscriptions c) = subscriptions c"
    using mset_mapEntries [of "[]" "rangeOrder E"] ext_okD(5) [OF assms(1)] by simp
  moreover have "fanOut E (\<lambda>f. f) [] c = (Return None, c)"
    using assms(1) joinOutcomes_Return [of "[]" "errs E"]
    by (simp add: fanOut_def sliceCalls_def perm_simps reduceErrors_aggregate)
  ultimately have "serve E ctx (CallSubscribeMultiple [] h) c = (Return None, c)"
    using assms(1)
    by (simp add: SubscribeMultiple_def newHandlers_def subscriberFuncs_def subscribeMultipleFunc_def filterSubs_Nil)
  then show ?thesis using assms(2) contract.multiple_none by auto
qed

section \<open>Lost connections\<close>

lemma absPool_onlySubs: "onlySubs c c' \<Longrightarrow> absPool c' = absPool c"
  using onlySubs_fields [of c c'] by (simp add: absPool_def rotationClients_def)

lemma managed_onlySubs: "onlySubs c c' \<Longrightarrow> managed c \<Longrightarrow> managed c'"
  using sameShape_wfClient [OF onlySubs_sameShape] onlySubs_fields(1,3) [of c c'] by (auto simp: managed_def)

lemma onlySubs_forget:
  assumes "onlySubs c d"
  shows "onlySubs c (updState a (\<lambda>s. s\<lparr>subsCalled := F s\<rparr>) d)"
  using onlySubs_trans [OF assms onlySubs_updState [of "\<lambda>s. s\<lparr>subsCalled := F s\<rparr>" d a "trace d"]] by simp

lemma trace_updState: "trace (updState a g c) = trace c"
  by (simp add: updState_def)

lemma removeStoredSubsCalled_only:
  "onlySubs c (removeStoredSubsCalled E cc c) \<and> trace (removeStoredSubsCalled E cc c) = trace c"
  unfolding removeStoredSubsCalled_def
  by (rule fold_invariant [where Q = "\<lambda>_. True" and P = "\<lambda>d. onlySubs c d \<and> trace d = trace c"])
    (auto intro: onlySubs_forget simp: trace_updState)

lemma lost_simulates:
  assumes "managed c"
  shows "\<exists>e' c'. serve E ctx (CallLost m e) c = (Return e', c') \<and> simulates E ctx (CallLost m e) c e' c'"
proof -
  note rem = removeStoredSubsCalled_only [of c E m]
  let ?tr = "case onConnectionLostHandler (options c) of None \<Rightarrow> [] | Some h \<Rightarrow> [OnConnectionLost h e]"
  let ?c = "connectionLostHandler E m e c"
  have c: "?c = (removeStoredSubsCalled E m c)\<lparr>trace := trace c @ ?tr\<rparr>"
    using rem by (cases "onConnectionLostHandler (options c)") (simp_all add: connectionLostHandler_def Let_def)
  then have os: "onlySubs c ?c" using rem onlySubs_trans onlySubs_trace by metis
  have "contract (encoded ctx (options c)) (sharedSubscriptionPredicate (options c)) (disconnectQuiesce (options c))
      (absPool c) (CallLost m e) ?tr None (absPool ?c)"
    unfolding absPool_onlySubs [OF os] by (rule contract.lost) (simp split: option.split)
  then show ?thesis using managed_onlySubs [OF os assms] onlySubs_fields(1) [OF os] c by auto
qed

section \<open>Address updates\<close>

text \<open>A fan-out of calls that return, keep \<open>P\<close> and make requests in \<open>S\<close>.\<close>

lemma calls_requests:
  assumes "\<And>x c. x \<in> set xs \<Longrightarrow> P c \<Longrightarrow>
      \<exists>e c' tr. f x c = (Return e, c') \<and> P c' \<and> trace c' = trace c @ tr \<and> set tr \<subseteq> S"
    and "P c" and "\<forall>i\<in>set is. i < length xs" and "\<forall>r\<in>set rs. is_Return r"
  shows "\<exists>rs' c' tr. callsInOrder f xs is rs c = (rs', c') \<and> (\<forall>r\<in>set rs'. is_Return r) \<and> P c' \<and>
     trace c' = trace c @ tr \<and> set tr \<subseteq> S"
  using assms(2-)
proof (induction "is" arbitrary: rs c)
  case Nil
  then show ?case by (auto intro: exI [of _ "[]"])
next
  case (Cons i "is")
  obtain e c1 tr where one: "f (xs ! i) c = (Return e, c1)" "P c1" "trace c1 = trace c @ tr" "set tr \<subseteq> S"
    using assms(1) [of "xs ! i" c] Cons.prems by auto
  have "\<forall>r\<in>set (rs[i := Return e]). is_Return r"
    using Cons.prems(3) set_update_subset_insert [of rs i "Return e"] by auto
  then obtain rs' c' tr' where "callsInOrder f xs is (rs[i := Return e]) c1 = (rs', c')" "\<forall>r\<in>set rs'. is_Return r"
      "P c'" "trace c' = trace c1 @ tr'" "set tr' \<subseteq> S"
    using Cons.IH [OF one(2), of "rs[i := Return e]"] Cons.prems(2) by auto
  with one show ?case by (intro exI [of _ rs'] exI [of _ c'] exI [of _ "tr @ tr'"]) simp
qed

lemma fanOut_requests:
  assumes "ext_ok E" and "\<And>x c. x \<in> set xs \<Longrightarrow> P c \<Longrightarrow>
      \<exists>e c' tr. f x c = (Return e, c') \<and> P c' \<and> trace c' = trace c @ tr \<and> set tr \<subseteq> S"
    and "P c"
  shows "\<exists>e c' tr. fanOut E f xs c = (Return e, c') \<and> P c' \<and> trace c' = trace c @ tr \<and> set tr \<subseteq> S"
proof -
  have "\<forall>i\<in>set (concOrder E (length xs)). i < length xs" using assms(1) by (simp add: perm_simps)
  then obtain rs c' tr where "callsInOrder f xs (concOrder E (length xs)) (replicate (length xs) (Return None)) c = (rs, c')"
      "\<forall>r\<in>set rs. is_Return r" "P c'" "trace c' = trace c @ tr" "set tr \<subseteq> S"
    using calls_requests [where f = f and xs = xs and P = P and S = S, OF assms(2,3),
        of "concOrder E (length xs)" "replicate (length xs) (Return None)"] by auto
  then show ?thesis by (simp add: fanOut_def sliceCalls_def joinOutcomes_Return)
qed

lemma renewals_absPool:
  assumes "wfClient c" and "(k, tm) \<in> set (subscriptions c)" and "m \<in> set (rotationClients c)"
  shows "MSubscribe m (smTopic tm) (qos (composeOptions (smOptions tm))) (smCallback tm) \<in> renewals (absPool c)"
proof -
  have "smTopic tm = k" "map_of (subscriptions c) k = Some tm"
    using assms(1,2) wfClient_wfRegistry [OF assms(1)] by (auto simp: wfRegistry_def)
  then show ?thesis using assms(3) by (auto simp: renewals_def absPool_def)
qed

lemma resume_one:
  assumes "ext_ok E" and "managed c" and d: "onlySubs c d" and entry: "(k, tm) \<in> set (subscriptions c)"
  shows "\<exists>e d' tr. subscribeFunc E context_Background (smTopic tm) (smCallback tm) (smOptions tm) d = (Return e, d') \<and>
     onlySubs c d' \<and> trace d' = trace d @ tr \<and> set tr \<subseteq> renewals (absPool c)"
proof -
  let ?r = "\<lambda>m. MSubscribe m (smTopic tm) (qos (composeOptions (smOptions tm))) (smCallback tm)"
  have man: "managed d" using managed_onlySubs [OF d assms(2)] .
  have k: "(k, tm) \<in> set (subscriptions d)" using entry onlySubs_fields(2) [OF d] by simp
  have ren: "?r m \<in> renewals (absPool c)" if "m \<in> set (rotationClients d)" for m
    using renewals_absPool [OF _ k that] man absPool_onlySubs [OF d] by (simp add: managed_def)
  show ?thesis
  proof (cases "orderedClients d = []")
    case True
    then show ?thesis using execute_uninitialized [OF man True] d by (auto simp: subscribeFunc_def Let_def)
  next
    case ne: False
    obtain e d' tr where run: "subscribeFunc E context_Background (smTopic tm) (smCallback tm) (smOptions tm) d = (Return e, d')"
        "onlySubs d d'" "trace d' = trace d @ tr"
      and req: "if sharedSubscriptionPredicate (options d) (smTopic tm)
        then mset tr \<subseteq># mset (map ?r (rotationClients d)) else \<exists>m\<in>set (rotationClients d). tr = [?r m]"
      by (rule subscribeFunc_requests [OF assms(1) man _ ne, of context_Background]) (simp add: context_Background_def)
    have "set tr \<subseteq> ?r ` set (rotationClients d)"
      using req set_mset_mono [of "mset tr" "mset (map ?r (rotationClients d))"] by (auto split: if_splits)
    with ren have "set tr \<subseteq> renewals (absPool c)" by blast
    then show ?thesis using run onlySubs_trans [OF d] by blast
  qed
qed

lemma resume_requests:
  assumes "ext_ok E" and "managed c"
  shows "\<exists>e c' tr. resumeSubscriptions newHandlers E c = (Return e, c') \<and> onlySubs c c' \<and>
     trace c' = trace c @ tr \<and> set tr \<subseteq> renewals (absPool c)"
proof (cases "subscriptions c = []")
  case True
  then show ?thesis by (auto simp: resumeSubscriptions_def)
next
  case False
  let ?f = "\<lambda>tm. subscribeFunc E context_Background (smTopic tm) (smCallback tm) (smOptions tm)"
  let ?xs = "mapValues (valuesOrder E) (subscriptions c)"
  have dk: "distinct_keys (subscriptions c)" using assms(2) by (simp add: managed_def wfClient_def)
  have one: "\<exists>e d' tr. ?f tm d = (Return e, d') \<and> onlySubs c d' \<and> trace d' = trace d @ tr \<and> set tr \<subseteq> renewals (absPool c)"
    if "tm \<in> set ?xs" and "onlySubs c d" for tm d
    using that set_mapValues [OF dk ext_okD(4) [OF assms(1)]] resume_one [OF assms that(2)] by auto
  have "resumeSubscriptions newHandlers E c = fanOut E ?f ?xs c"
    using False by (simp add: resumeSubscriptions_def newHandlers_def subscriberFuncs_def)
  then show ?thesis
    using fanOut_requests [where f = ?f and xs = ?xs and P = "onlySubs c", OF assms(1) one] by simp
qed

text \<open>The attempts of an update: which clients they make, and what they leave alone.\<close>

lemma update_fresh: "k \<notin> fst ` set m \<Longrightarrow> AList.update k v m = m @ [(k, v)]"
  by (induction m) auto

lemma multiAttempt_step:
  obtains m o1 e where "multiAttempt E rv ia (c, clients) =
    (e, c\<lparr>trace := trace c @ connections [(m, o1)]\<rparr>, AList.update (multiKey ia) m clients)"
proof -
  let ?o = "toClientOptions E (trace c) ((options c)\<lparr>brokerAddress := TCPAddress_String (iaAddr ia)\<rparr>)
      (''-'' @ dec (iaIndex ia) @ ''-'' @ dec (unat (rv + 1)))"
  let ?m = "newClientFunc E (trace c) ?o"
  have "multiAttempt E rv ia (c, clients) =
      (connectWait (options c) (respond E (trace c @ connections [(?m, ?o)])),
       c\<lparr>trace := trace c @ connections [(?m, ?o)]\<rparr>, AList.update (multiKey ia) ?m clients)"
    by (simp add: multiAttempt_def newMqttClient_def pahoCall_def Let_def connections_def)
  then show thesis by (rule that)
qed

lemma attempts_requests:
  assumes "callsInOrder (multiAttempt E rv) xs is rs (c, clients) = (rs', c', clients')"
    and "distinct (map (\<lambda>i. multiKey (xs ! i)) is)"
    and "fst ` set clients \<inter> (\<lambda>i. multiKey (xs ! i)) ` set is = {}"
  shows "\<exists>new. c' = c\<lparr>trace := trace c @ connections new\<rparr> \<and> length new = length is \<and>
     map snd clients' = map snd clients @ map fst new"
  using assms
proof (induction "is" arbitrary: rs c clients)
  case Nil
  then show ?case by (intro exI [of _ "[]"]) (simp add: connections_def)
next
  case (Cons i "is")
  obtain m o1 e where one: "multiAttempt E rv (xs ! i) (c, clients) =
      (e, c\<lparr>trace := trace c @ connections [(m, o1)]\<rparr>, AList.update (multiKey (xs ! i)) m clients)"
    by (rule multiAttempt_step)
  have upd: "AList.update (multiKey (xs ! i)) m clients = clients @ [(multiKey (xs ! i), m)]"
    using Cons.prems(3) by (intro update_fresh) auto
  let ?c = "c\<lparr>trace := trace c @ connections [(m, o1)]\<rparr>"
  have rest: "callsInOrder (multiAttempt E rv) xs is (rs[i := e]) (?c, clients @ [(multiKey (xs ! i), m)]) = (rs', c', clients')"
    using Cons.prems(1) one upd by simp
  have "fst ` set (clients @ [(multiKey (xs ! i), m)]) \<inter> (\<lambda>i. multiKey (xs ! i)) ` set is = {}"
    using Cons.prems(2,3) by auto
  from Cons.IH [OF rest _ this] Cons.prems(2) obtain new where
    "c' = ?c\<lparr>trace := trace ?c @ connections new\<rparr>" "length new = length is"
    "map snd clients' = map snd (clients @ [(multiKey (xs ! i), m)]) @ map fst new" by auto
  then show ?case by (intro exI [of _ "(m, o1) # new"]) (simp add: connections_def)
qed

lemma attempted_requests:
  assumes "ext_ok E" and "attempted E addrs c = (c1, clients)"
  obtains new where "c1 = c\<lparr>trace := trace c @ connections new\<rparr>" "length new = length addrs"
    "map snd clients = map fst new"
proof -
  let ?xs = "indexAddresses E addrs" and ?is = "concOrder E (length addrs)"
  obtain rs' where run: "callsInOrder (multiAttempt E (multiConnRevision c)) ?xs ?is
      (replicate (length addrs) None) (c, []) = (rs', c1, clients)"
    using assms(2) by (auto simp: attempted_def sliceCalls_def prod_eq_iff)
  have "is": "set ?is = {0..<length addrs}" "distinct ?is" using assms(1) by (simp_all add: perm_simps)
  have "inj_on (\<lambda>i. multiKey (?xs ! i)) {0..<length addrs}"
    using distinct_multiKeys [OF assms(1), of addrs] unfolding inj_on_def distinct_conv_nth by fastforce
  with "is" have "distinct (map (\<lambda>i. multiKey (?xs ! i)) ?is)" by (simp add: distinct_map)
  from attempts_requests [OF run this] obtain new where
    "c1 = c\<lparr>trace := trace c @ connections new\<rparr>" "length new = length ?is" "map snd clients = map fst new" by auto
  moreover have "length ?is = length addrs" using distinct_card [OF "is"(2)] "is"(1) by simp
  ultimately show thesis using that by simp
qed

lemma reloadClients_keeps:
  "rrCounter (reloadClients E clients c) = rrCounter c \<and> trace (reloadClients E clients c) = trace c \<and>
   mqttClient (reloadClients E clients c) = mqttClient c"
proof -
  have "rrCounter (fold (\<lambda>(k, m). addConnection k m) es d) = rrCounter d \<and>
      trace (fold (\<lambda>(k, m). addConnection k m) es d) = trace d \<and>
      mqttClient (fold (\<lambda>(k, m). addConnection k m) es d) = mqttClient d" for es and d :: "('a, 'b) client_scheme"
    by (induction es arbitrary: d) (auto simp: addConnection_def Let_def)
  then show ?thesis by (simp add: reloadClients_def Let_def)
qed

lemma reload_simulates:
  assumes "ext_ok E" and "managed c" and "attempted E addrs c = (c\<lparr>trace := tr\<rparr>, clients)"
    and "multipleClients E addrs c = (res, c2)"
  shows "managed (reloadClients E res c2)" and "options (reloadClients E res c2) = options c"
    and "trace (reloadClients E res c2) = tr"
    and "mset (members (absPool (reloadClients E res c2))) = mset (map snd clients) \<and>
        absPool (reloadClients E res c2) = (absPool c)\<lparr>members := members (absPool (reloadClients E res c2))\<rparr> \<or>
      absPool (reloadClients E res c2) = absPool c"
proof -
  let ?r = "reloadClients E res c2" and ?open = "\<exists>e\<in>set clients. isConnectionOpen E tr (snd e)"
  have wf: "wfClient c" using assms(2) by (simp add: managed_def)
  note keeps = reloadClients_keeps [of E res c2] and fields = multi_update_fields [OF assms(1,4)]
  have cases: "if ?open then res = mapEntries (rangeOrder E) clients \<and> c2 = c\<lparr>trace := tr, multiConnRevision := multiConnRevision c + 1\<rparr>
      else res = [] \<and> c2 = c\<lparr>trace := tr, goroutines := goroutines c @ [GoDisconnectAll (mapValues (valuesOrder E) (mapEntries (rangeOrder E) clients))]\<rparr>"
    using multipleClients_cases [OF assms(1,3)] assms(4) by (auto simp: Let_def split: if_splits)
  then have c2: "rrCounter c2 = rrCounter c" "trace c2 = tr" "mqttClient c2 = mqttClient c" by (auto split: if_splits)
  show "options ?r = options c" by (rule fields(1))
  show "trace ?r = tr" using keeps c2 by simp
  have "wfClient ?r"
    using wfClient_reloadClients [OF assms(1) wfClient_multipleClients(1,2) [OF assms(1) wf assms(4)]] .
  then show "managed ?r" using assms(2) keeps c2 fields(1) by (simp add: managed_def)
  have turn: "absPool ?r = (absPool c)\<lparr>members := members (absPool ?r)\<rparr>"
    using keeps c2 fields(2) by (simp add: absPool_def)
  show "mset (members (absPool ?r)) = mset (map snd clients) \<and> absPool ?r = (absPool c)\<lparr>members := members (absPool ?r)\<rparr> \<or>
      absPool ?r = absPool c"
  proof (cases ?open)
    case True
    note ms = mset_attempted_entries [OF assms(1,3)]
    have "res = mapEntries (rangeOrder E) clients" "res \<noteq> []" using cases True ms(2) by auto
    then have "mset (members (absPool ?r)) = mset (map snd clients)"
      using reloadClients_effect(1) [OF assms(1), of res c2] ms(1,4) by (simp add: absPool_def)
    then show ?thesis using turn by blast
  next
    case False
    then have "?r = c2" "rotationClients c2 = rotationClients c"
      using cases reloadClients_none [OF assms(1)] by (auto simp: rotationClients_def)
    then show ?thesis using turn by (simp add: absPool_def)
  qed
qed

lemma update_simulates:
  assumes "ext_ok E" and "managed c" and "multiConnectionMode (options c)"
  shows "\<exists>e c'. serve E ctx (CallUpdate addrs) c = (Return e, c') \<and> simulates E ctx (CallUpdate addrs) c e c'"
proof -
  have wf: "wfClient c" using assms(2) by (simp add: managed_def)
  obtain c1 clients where att: "attempted E addrs c = (c1, clients)" by fastforce
  obtain new where c1: "c1 = c\<lparr>trace := trace c @ connections new\<rparr>" and len: "length new = length addrs"
      and cl: "map snd clients = map fst new"
    by (rule attempted_requests [OF assms(1) att])
  obtain res c2 where mc: "multipleClients E addrs c = (res, c2)" by fastforce
  let ?r = "reloadClients E res c2"
  have serve: "serve E ctx (CallUpdate addrs) c = resumeSubscriptions newHandlers E ?r"
    using assms(3) mc by (simp add: attemptConnections_def attemptMultiConnections_def)
  note r = reload_simulates [OF assms(1,2) att [unfolded c1] mc, unfolded cl]
  obtain e c' tr where run: "resumeSubscriptions newHandlers E ?r = (Return e, c')" "onlySubs ?r c'"
      "trace c' = trace ?r @ tr" "set tr \<subseteq> renewals (absPool ?r)"
    using resume_requests [OF assms(1) r(1)] by blast
  have "contract (encoded ctx (options c)) (sharedSubscriptionPredicate (options c)) (disconnectQuiesce (options c))
      (absPool c) (CallUpdate addrs) (connections new @ tr) e (absPool ?r)"
    using r(4) run(4) contract.update_connected [OF len, where ms = "members (absPool ?r)" and p = "absPool c" and tr = tr]
      contract.update_unconnected [OF len, where p = "absPool c" and tr = tr] by metis
  then show ?thesis
    using serve run r managed_onlySubs [OF run(2)] onlySubs_fields(1) [OF run(2)] absPool_onlySubs [OF run(2)] by auto
qed

end
