(* ===== verification/Contract.thy ===== *)
theory Contract
  imports Simulation
begin

text \<open>
  A client with several connections implements the abstract pool: every sequence of its calls is
  a run of the pool.
\<close>

section \<open>Sequences of calls\<close>

text \<open>The topics of a call are a Go map, and addresses are updated in multi-connection mode only.\<close>

fun admissible :: "'v clientOptions \<Rightarrow> 'v call \<Rightarrow> bool" where
  "admissible o1 (CallSubscribeMultiple tq h) = distinct_keys tq"
| "admissible o1 (CallUpdate addrs) = multiConnectionMode o1"
| "admissible o1 _ = True"

lemma multiple_call_simulates:
  assumes "ext_ok E" and "managed c" and "clientIDCallbackKey ctx = None" and "distinct_keys tq"
  shows "\<exists>e c'. serve E ctx (CallSubscribeMultiple tq h) c = (Return e, c') \<and>
     simulates E ctx (CallSubscribeMultiple tq h) c e c'"
  using multiple_none_simulates [OF assms(1,2)] multiple_uninitialized_simulates [OF assms(1,2) _ _ assms(4)]
    multiple_simulates [OF assms(1-3) _ assms(4)]
  by (cases "tq = []"; cases "orderedClients c = []") simp_all

lemma connected_simulates:
  assumes "ext_ok E" and "managed c" and "clientIDCallbackKey ctx = None" and "unat (rrCounter c) < 2 ^ 63"
    and "orderedClients c \<noteq> []" and "needsConnection (encoded ctx (options c)) k"
  shows "\<exists>e c'. serve E ctx k c = (Return e, c') \<and> simulates E ctx k c e c'"
proof (cases k)
  case (CallPublish topic msg opts)
  then obtain buf where "newEncoder (options c) ctx msg [] = (None, buf)"
    using assms(6) by (auto simp: encoded_def split: prod.splits option.splits)
  then show ?thesis using publish_simulates [OF assms(2-4) _ assms(5)] CallPublish by blast
next
  case (CallSubscribe topic h opts)
  then show ?thesis using subscribe_simulates [OF assms(1-3,5)] by simp
next
  case (CallUnsubscribe topics)
  then show ?thesis using unsubscribe_simulates [OF assms(1,2,5)] by simp
next
  case CallStop
  then show ?thesis using stop_simulates [OF assms(1,2,5), of ctx] by simp
qed (use assms(6) in simp_all)

lemma serve_simulates:
  assumes "ext_ok E" and "managed c" and "clientIDCallbackKey ctx = None" and "unat (rrCounter c) < 2 ^ 63"
    and "admissible (options c) k"
  shows "\<exists>e c'. serve E ctx k c = (Return e, c') \<and> simulates E ctx k c e c'"
proof (cases "needsConnection (encoded ctx (options c)) k")
  case True
  then show ?thesis
    using connected_simulates [OF assms(1-4)] uninitialized_simulates [OF assms(2)] by blast
next
  case False
  then show ?thesis
  proof (cases k)
    case (CallPublish topic msg opts)
    with False obtain e where e: "encoded ctx (options c) msg = Inl e" by (auto simp: isl_def)
    then have "serve E ctx k c = (Return (Some e), c)"
      using CallPublish by (auto simp: encoded_def Publish_def publishHandler_def split: prod.splits option.splits)
    then show ?thesis
      using assms(2) CallPublish contract.unencodable [where enc = "encoded ctx (options c)", OF e] by simp
  next
    case (CallSubscribeMultiple tq h)
    then show ?thesis using multiple_call_simulates [OF assms(1-3), of tq h] assms(5) by simp
  next
    case (CallLost m e)
    then show ?thesis using lost_simulates [OF assms(2)] by simp
  next
    case (CallUpdate addrs)
    then show ?thesis using update_simulates [OF assms(1,2)] assms(5) by simp
  qed simp_all
qed

lemma serves_simulates:
  assumes "ext_ok E" and "managed c" and "clientIDCallbackKey ctx = None" and "unat (rrCounter c) + length ks < 2 ^ 63"
    and "list_all (admissible (options c)) ks"
  shows "\<exists>es c' tr. serves E ctx ks c = (map Return es, c') \<and> trace c' = trace c @ tr \<and>
     contracts (encoded ctx (options c)) (sharedSubscriptionPredicate (options c)) (disconnectQuiesce (options c))
       (absPool c) ks tr es (absPool c')"
  using assms(2,4,5)
proof (induction ks arbitrary: c)
  case Nil
  then show ?case by (auto intro: contracts.none)
next
  case (Cons k ks)
  have "unat (rrCounter c) < 2 ^ 63" "admissible (options c) k" using Cons.prems(2,3) by simp_all
  then obtain e c1 tr where one: "serve E ctx k c = (Return e, c1)" "managed c1" "options c1 = options c"
      "trace c1 = trace c @ tr" "contract (encoded ctx (options c)) (sharedSubscriptionPredicate (options c))
         (disconnectQuiesce (options c)) (absPool c) k tr e (absPool c1)"
    using serve_simulates [OF assms(1) Cons.prems(1) assms(3)] by blast
  have "unat (rrCounter c1) + length ks < 2 ^ 63"
    using turn_step [OF one(5)] Cons.prems(2) by (simp add: absPool_def)
  then obtain es c' tr' where rest: "serves E ctx ks c1 = (map Return es, c')" "trace c' = trace c1 @ tr'"
      "contracts (encoded ctx (options c)) (sharedSubscriptionPredicate (options c)) (disconnectQuiesce (options c))
       (absPool c1) ks tr' es (absPool c')"
    using Cons.IH [OF one(2)] one(3) Cons.prems(3) by auto
  then show ?case
    using one contracts.more [OF one(5) rest(3)] by (intro exI [of _ "e # es"] exI [of _ c'] exI [of _ "tr @ tr'"]) simp
qed

section \<open>Properties\<close>

text \<open>
  C3: A client with several connections implements the contract of a pool: every sequence of
  publications, subscriptions to one or several topics, unsubscriptions, stops, lost connections
  and address updates (of fewer than \<open>2 ^ 63\<close> calls in all) returns from every call without a panic,
  and the requests it makes, the errors it returns and the state it ends in are those of a run of
  the abstract pool, whose members are the clients in the order of the rotation, whose turn is the
  counter, and whose registry holds the level and the handler of every subscribed topic. In
  particular an address update replaces all members by new ones, one for each address, or none,
  keeps the turn and the registry, and requests nothing but connections and subscriptions that are
  in the registry, on the members it leaves.
\<close>

theorem client_implements_pool:
  assumes "ext_ok E" and "managed c" and "clientIDCallbackKey ctx = None"
    and "unat (rrCounter c) + length ks < 2 ^ 63" and "list_all (admissible (options c)) ks"
  shows "\<exists>es c' tr. serves E ctx ks c = (map Return es, c') \<and> trace c' = trace c @ tr \<and>
     contracts (encoded ctx (options c)) (sharedSubscriptionPredicate (options c)) (disconnectQuiesce (options c))
       (absPool c) ks tr es (absPool c')"
  by (rule serves_simulates [OF assms])

theorem client_implements_pool_witness:
  "\<exists>es c' tr. serves refExt context_Background [CallUpdate [TCPAddress ''h'' 1], CallPublish ''t'' ''x'' [],
         CallSubscribe ''t'' (AppHandler 3) [], CallUpdate [TCPAddress ''k'' 2], CallStop, CallStop] refMulti =
       (map Return es, c') \<and> trace c' = trace refMulti @ tr \<and>
     contracts (encoded context_Background (options refMulti)) defaultSharedSubscriptionPredicate (disconnectQuiesce (options refMulti))
       (absPool refMulti) [CallUpdate [TCPAddress ''h'' 1], CallPublish ''t'' ''x'' [],
         CallSubscribe ''t'' (AppHandler 3) [], CallUpdate [TCPAddress ''k'' 2], CallStop, CallStop] tr es (absPool c')"
proof -
  have "rrCounter refMulti = 0" "multiConnectionMode (options refMulti)"
    "sharedSubscriptionPredicate (options refMulti) = defaultSharedSubscriptionPredicate"
    by (simp_all add: refMulti_def reference_defs Let_def)
  moreover have "managed refMulti" by (simp add: managed_def)
  ultimately show ?thesis
    using client_implements_pool [OF ext_ok_refExt, of refMulti context_Background
      "[CallUpdate [TCPAddress ''h'' 1], CallPublish ''t'' ''x'' [],
         CallSubscribe ''t'' (AppHandler 3) [], CallUpdate [TCPAddress ''k'' 2], CallStop, CallStop]"]
    by (simp add: context_Background_def del: serves.simps)
qed

end
