(* ===== verification/Delivery.thy ===== *)
theory Delivery
  imports Publishing
begin

text \<open>
  A message from the value that is published to the value that a subscriber decodes: chains of
  encoders and decoders, the payload of the request, and the message that the callback gets.
\<close>

section \<open>Chains of encoders\<close>

text \<open>
  An encoder that appends to its writer: \<open>out\<close> gives its error and what it writes, whatever was
  written before.
\<close>

definition appends :: "('v EncoderFunc \<Rightarrow> err \<times> bytes) \<Rightarrow> gocontext \<Rightarrow> 'v \<Rightarrow> 'v EncoderFunc \<Rightarrow> bool" where
  "appends out ctx v f \<longleftrightarrow> (\<forall>buf. f ctx v buf = (fst (out f), buf @ snd (out f)))"

text \<open>The encoders of a chain that are called: those that fail, and the first that does not.\<close>

definition called :: "('f \<Rightarrow> err \<times> bytes) \<Rightarrow> 'f list \<Rightarrow> 'f list" where
  "called out fs = (let bad = takeWhile (\<lambda>f. fst (out f) \<noteq> None) fs in bad @ take 1 (drop (length bad) fs))"

lemma called_simps [simp]:
  "called out [] = []"
  "called out (f # fs) = f # (if fst (out f) = None then [] else called out fs)"
  by (simp_all add: called_def Let_def)

lemma chainEncoder_called:
  assumes "list_all (appends out ctx v) fs"
  shows "chainEncoder_Encode (map (\<lambda>fn. fn ctx) fs) acc v buf =
    (if \<exists>f\<in>set fs. fst (out f) = None then None
     else Some (errorfJoin ''all encoders failed: '' (acc @ map (\<lambda>f. the (fst (out f))) fs)),
     buf @ concat (map (\<lambda>f. snd (out f)) (called out fs)))"
  using assms by (induction fs arbitrary: acc buf) (auto simp: appends_def)

text \<open>An encoder that fails without writing, and one that succeeds with the given bytes.\<close>

definition refusesValue :: "gocontext \<Rightarrow> 'v \<Rightarrow> 'v EncoderFunc \<Rightarrow> bool" where
  "refusesValue ctx v f \<longleftrightarrow> (\<exists>e. \<forall>buf. f ctx v buf = (Some e, buf))"

definition encodesTo :: "gocontext \<Rightarrow> 'v \<Rightarrow> bytes \<Rightarrow> 'v EncoderFunc \<Rightarrow> bool" where
  "encodesTo ctx v payload f \<longleftrightarrow> (\<forall>buf. f ctx v buf = (None, buf @ payload))"

lemma chain_encodesTo:
  assumes "list_all (refusesValue ctx v) pre" and "encodesTo ctx v payload f"
  shows "encodesTo ctx v payload (ChainEncoderFunc (pre @ f # post))"
proof -
  have "chainEncoder_Encode (map (\<lambda>fn. fn ctx) (pre @ f # post)) acc v buf = (None, buf @ payload)" for acc buf
    using assms by (induction pre arbitrary: acc) (auto simp: refusesValue_def encodesTo_def)
  then show ?thesis by (simp add: encodesTo_def ChainEncoderFunc_def)
qed

section \<open>Chains of decoders\<close>

text \<open>A decoder that refuses a payload and leaves the target alone, and one that decodes it.\<close>

definition refusesPayload :: "gocontext \<Rightarrow> bytes \<Rightarrow> 'v DecoderFunc \<Rightarrow> bool" where
  "refusesPayload ctx payload d \<longleftrightarrow> (\<exists>e. \<forall>t. d ctx (bytes_NewReader payload) 0 t = (Some e, t))"

definition decodesTo :: "gocontext \<Rightarrow> bytes \<Rightarrow> 'v \<Rightarrow> 'v DecoderFunc \<Rightarrow> bool" where
  "decodesTo ctx payload v d \<longleftrightarrow> (\<forall>t. d ctx (bytes_NewReader payload) 0 t = (None, v))"

lemma chain_decodesTo:
  assumes "list_all (refusesPayload ctx payload) pre" and "decodesTo ctx payload v d"
  shows "ChainDecoderFunc (pre @ d # post) ctx (bytes_NewReader payload) k t = (None, v)"
proof -
  have "chainDecoder_Decode (pre @ d # post) ctx payload acc t = (None, v)" for acc
    using assms by (induction pre arbitrary: acc) (auto simp: refusesPayload_def decodesTo_def)
  then show ?thesis by (simp add: ChainDecoderFunc_def bytes_NewReader_def)
qed

section \<open>Properties\<close>


text \<open>A client whose first encoder refuses everything, and a subscriber with a like chain of decoders.\<close>

definition refuser :: "string EncoderFunc" where
  "refuser ctx v buf = (Some (ErrorString ''refused''), buf)"

definition charEncoder :: "string EncoderFunc" where
  "charEncoder ctx v buf = (None, buf @ map of_char v)"

definition charDecoder :: "string DecoderFunc" where
  "charDecoder ctx r k t = (None, map (\<lambda>b. char_of (unat b)) (readData r))"

definition refusing :: "string DecoderFunc" where
  "refusing ctx r k t = (Some (ErrorString ''refused''), t)"

definition refChained :: "string client" where
  "refChained = refPool\<lparr>options := (options refPool)
     \<lparr>newEncoder := ChainEncoderFunc [refuser, charEncoder], newDecoder := ChainDecoderFunc [refusing, charDecoder]\<rparr>\<rparr>"

lemma refChained_fields [simp]:
  "wfClient refChained" "multiMode refChained" "orderedClients refChained = [0, 1]" "rrCounter refChained = 0"
  "newEncoder (options refChained) = ChainEncoderFunc ([refuser] @ charEncoder # [])"
  "newDecoder (options refChained) = ChainDecoderFunc ([refusing] @ charDecoder # [])"
  "trace refChained = trace refPool" "states refChained = states refPool"
  using wfClient_reference(1) by (simp_all add: refChained_def wfClient_def)


text \<open>
  C35: A chain of encoders that append to the writer succeeds exactly when one of them does, with
  the first that does, and otherwise fails with the errors of all, in order. The writer is shared:
  it keeps what the encoders that failed have written, in front of the output of the one that
  succeeds.
\<close>

theorem encoder_chain:
  assumes "list_all (appends out ctx v) fs"
  shows "ChainEncoderFunc fs ctx v buf =
    (if \<exists>f\<in>set fs. fst (out f) = None then None
     else Some (errorfJoin ''all encoders failed: '' (map (\<lambda>f. the (fst (out f))) fs)),
     buf @ concat (map (\<lambda>f. snd (out f)) (called out fs)))"
  unfolding ChainEncoderFunc_def chainEncoder_called [OF assms] by simp

theorem encoder_chain_witness:
  "ChainEncoderFunc [\<lambda>ctx v buf. (Some (ErrorString ''late''), buf @ [1, 2]), charEncoder] context_Background ''hi'' [] =
     (None, [1, 2, 104, 105])"
proof -
  let ?bad = "\<lambda>ctx v buf. (Some (ErrorString ''late''), buf @ [1, 2]) :: err \<times> bytes"
  let ?out = "\<lambda>f. (fst (f context_Background ''hi'' []), snd (f context_Background ''hi'' []))"
  have "list_all (appends ?out context_Background ''hi'') [?bad, charEncoder]"
    by (simp add: appends_def charEncoder_def)
  from encoder_chain [OF this, of "[]"] show ?thesis by (simp add: charEncoder_def)
qed

end
