(* ===== verification/Telemetry.thy ===== *)
theory Telemetry
  imports Lifecycle
begin

text \<open>
  What a client reports about itself (\<^verbatim>\<open>client_telemetry.go\<close>, \<^verbatim>\<open>metrics.go\<close>, \<^verbatim>\<open>http.go\<close>): the
  information on its MQTT clients and its subscriptions, the periodic emitter and the HTTP
  handler.
\<close>

section \<open>Reading the options of an MQTT client\<close>

text \<open>
  What paho's \<^verbatim>\<open>OptionsReader\<close> answers, a parameter: of the server URLs the code reads the
  host name and the text of the port.
\<close>

record optionsReader =
  rdServers :: "(string \<times> string) list"
  rdClientID :: string
  rdUsername :: string
  rdResumeSubs :: bool
  rdCleanSession :: bool
  rdAutoReconnect :: bool

record MQTTClientInfo =
  Addresses :: "TCPAddress list"
  infoClientID :: string
  infoUsername :: string
  ResumeSubs :: bool
  CleanSession :: bool
  AutoReconnect :: bool
  Connected :: bool
  infoSubscriptions :: "string list"

definition is_digit :: "char \<Rightarrow> bool" where
  "is_digit ch \<longleftrightarrow> 48 \<le> (of_char ch :: nat) \<and> (of_char ch :: nat) \<le> 57"

text \<open>
  \<^verbatim>\<open>i, _ := strconv.Atoi(s)\<close>: zero on a syntax error, the nearest 64-bit value out of range.
\<close>

definition strconv_Atoi :: "string \<Rightarrow> int" where
  "strconv_Atoi s =
     (let (neg, ds) = (case s of [] \<Rightarrow> (False, [])
            | ch # r \<Rightarrow> if ch = CHR ''-'' then (True, r) else if ch = CHR ''+'' then (False, r) else (False, s))
      in if ds = [] \<or> \<not> list_all is_digit ds then 0
         else if neg then max (- (2 ^ 63)) (- int (dec_val ds)) else min (2 ^ 63 - 1) (int (dec_val ds)))"

definition transformClientInfo ::
  "ext \<Rightarrow> (mclient \<Rightarrow> optionsReader) \<Rightarrow> event list \<Rightarrow> mclient \<Rightarrow> string list \<Rightarrow> MQTTClientInfo" where
  "transformClientInfo E R tr cc subscribedTopics =
     (let opts = R cc
      in \<lparr>Addresses = map (\<lambda>(host, port). TCPAddress host (word_of_int (strconv_Atoi port))) (rdServers opts),
          infoClientID = rdClientID opts, infoUsername = rdUsername opts,
          ResumeSubs = rdResumeSubs opts, CleanSession = rdCleanSession opts,
          AutoReconnect = rdAutoReconnect opts, Connected = isConnectionOpen E tr cc,
          infoSubscriptions = subscribedTopics\<rparr>)"

section \<open>The information of a client\<close>

record infoResponse =
  MultiConnMode :: bool
  PoolMode :: bool
  PoolSize :: int
  Clients :: "MQTTClientInfo list"
  Subscriptions :: "(string, QOSLevel) gomap"

definition noteOption :: "string \<Rightarrow> Option \<Rightarrow> (string, QOSLevel) gomap \<Rightarrow> (string, QOSLevel) gomap" where
  "noteOption topic opt subs = (case opt of QOSOption v \<Rightarrow> AList.update topic v subs | _ \<Rightarrow> subs)"

definition readSubscriptionMeta :: "ext \<Rightarrow> ('v, 'x) client_scheme \<Rightarrow> (string, QOSLevel) gomap" where
  "readSubscriptionMeta E c =
     fold (\<lambda>(topic, sub) subs.
             (let subs' = fold (noteOption topic) (smOptions sub) subs
              in if map_of subs' topic = None then AList.update topic QOSZero subs' else subs'))
       (mapEntries (rangeOrder E) (subscriptions c)) []"

text \<open>
  The channel \<^verbatim>\<open>bCh\<close> of \<^verbatim>\<open>multiClientInfo\<close>, and the variable \<^verbatim>\<open>bi\<close> of \<^verbatim>\<open>singleClientInfo\<close>, are an extra
  component of the state while \<^verbatim>\<open>execute\<close> runs. The order in which a Go slice is sorted is the
  argument \<open>sorter\<close>.
\<close>

definition pushInfo ::
  "MQTTClientInfo \<Rightarrow> ('v, MQTTClientInfo list \<times> 'x) client_scheme \<Rightarrow>
   ('v, MQTTClientInfo list \<times> 'x) client_scheme" where
  "pushInfo b c = client.more_update (\<lambda>(ch, x). (ch @ [b], x)) c"

definition infoOn ::
  "ext \<Rightarrow> (mclient \<Rightarrow> optionsReader) \<Rightarrow>
   (mclient option \<Rightarrow> ('v, MQTTClientInfo list \<times> 'x) client_scheme act) \<Rightarrow> addr \<Rightarrow>
   ('v, MQTTClientInfo list \<times> 'x) client_scheme act" where
  "infoOn E R f a s =
     (let is = states s a; subs = set_Values E (subsCalled is)
      in f (Some (isClient is)) (pushInfo (transformClientInfo E R (trace s) (isClient is) subs) s))"

definition multiClientInfo ::
  "ext \<Rightarrow> (mclient \<Rightarrow> optionsReader) \<Rightarrow> (MQTTClientInfo list \<Rightarrow> MQTTClientInfo list) \<Rightarrow>
   ('v, 'x) client_scheme \<Rightarrow> MQTTClientInfo list" where
  "multiClientInfo E R sorter c =
     (if length (mapValues (valuesOrder E) (mqttClients c)) = 0 then []
      else sorter (fst (client.more (snd
             (execute E context_Background (\<lambda>cc s. (Return None, s)) (ExecOptWithState (infoOn E R))
                (client.extend (client.truncate c) ([], client.more c)))))))"

definition zeroInfo :: MQTTClientInfo where
  "zeroInfo = \<lparr>Addresses = [], infoClientID = [], infoUsername = [], ResumeSubs = False,
     CleanSession = False, AutoReconnect = False, Connected = False, infoSubscriptions = []\<rparr>"

definition setInfo ::
  "MQTTClientInfo \<Rightarrow> ('v, MQTTClientInfo \<times> 'x) client_scheme \<Rightarrow> ('v, MQTTClientInfo \<times> 'x) client_scheme" where
  "setInfo b c = client.more_update (\<lambda>(_, x). (b, x)) c"

definition singleClientInfo ::
  "ext \<Rightarrow> (mclient \<Rightarrow> optionsReader) \<Rightarrow> ('v, 'x) client_scheme \<Rightarrow> MQTTClientInfo list" where
  "singleClientInfo E R c =
     (case mqttClient c of
        None \<Rightarrow> []
      | Some _ \<Rightarrow> [fst (client.more (snd
          (execute E context_Background
             (\<lambda>cc. onClient cc (\<lambda>m s. (Return None, setInfo (transformClientInfo E R (trace s) m []) s)))
             execAll (client.extend (client.truncate c) (zeroInfo, client.more c)))))])"

definition clientInfo ::
  "ext \<Rightarrow> (mclient \<Rightarrow> optionsReader) \<Rightarrow> (MQTTClientInfo list \<Rightarrow> MQTTClientInfo list) \<Rightarrow>
   ('v, 'x) client_scheme \<Rightarrow> MQTTClientInfo list" where
  "clientInfo E R sorter c =
     (if multiConnectionMode (options c) \<or> poolEnabled (options c) then multiClientInfo E R sorter c
      else singleClientInfo E R c)"

definition infoResponseOf ::
  "ext \<Rightarrow> (mclient \<Rightarrow> optionsReader) \<Rightarrow> (MQTTClientInfo list \<Rightarrow> MQTTClientInfo list) \<Rightarrow>
   ('v, 'x) client_scheme \<Rightarrow> infoResponse" where
  "infoResponseOf E R sorter c =
     (let subs = readSubscriptionMeta E c; ci = clientInfo E R sorter c;
          response = \<lparr>MultiConnMode = multiConnectionMode (options c), PoolMode = poolEnabled (options c),
            PoolSize = 0, Clients = ci, Subscriptions = subs\<rparr>
      in if poolEnabled (options c) then response\<lparr>PoolSize := poolSize (options c)\<rparr> else response)"

section \<open>The emitter\<close>

record ClientMeta =
  cmMultiConnMode :: bool
  cmClients :: "MQTTClientInfo list"
  cmSubscriptions :: "(string, QOSLevel) gomap"

text \<open>
  What the \<^verbatim>\<open>select\<close> of the emitter takes: the cancellation, or a tick in the state the client
  has then. The metas are emitted by one goroutine each; \<^term>\<open>False\<close> when it still runs.
\<close>

datatype 'c emitterEvent = EmitterDone | EmitterTick 'c

fun runBrokerInfoEmitter ::
  "ext \<Rightarrow> (mclient \<Rightarrow> optionsReader) \<Rightarrow> (MQTTClientInfo list \<Rightarrow> MQTTClientInfo list) \<Rightarrow>
   ('v, 'x) client_scheme emitterEvent list \<Rightarrow> bool \<times> ClientMeta list" where
  "runBrokerInfoEmitter E R sorter [] = (False, [])"
| "runBrokerInfoEmitter E R sorter (EmitterDone # es) = (True, [])"
| "runBrokerInfoEmitter E R sorter (EmitterTick c # es) =
     (let ir = infoResponseOf E R sorter c;
          cm = \<lparr>cmMultiConnMode = MultiConnMode ir, cmClients = Clients ir, cmSubscriptions = Subscriptions ir\<rparr>;
          (fin, cms) = runBrokerInfoEmitter E R sorter es
      in (fin, cm # cms))"

section \<open>The HTTP handler\<close>

text \<open>
  A \<^verbatim>\<open>http.ResponseWriter\<close>: the header map, and the status line with the headers that were in the
  map when \<^verbatim>\<open>WriteHeader\<close> was called, which are the ones sent.
\<close>

record responseWriter =
  header :: "(string, string) gomap"
  sent :: "(nat \<times> (string, string) gomap) option"
  body :: bytes

definition WriteHeader :: "nat \<Rightarrow> responseWriter \<Rightarrow> responseWriter" where
  "WriteHeader code w = (if sent w = None then w\<lparr>sent := Some (code, header w)\<rparr> else w)"

definition Header_Set :: "string \<Rightarrow> string \<Rightarrow> responseWriter \<Rightarrow> responseWriter" where
  "Header_Set k v w = w\<lparr>header := AList.update k v (header w)\<rparr>"

definition Write :: "bytes \<Rightarrow> responseWriter \<Rightarrow> responseWriter" where
  "Write bs w = (let w' = WriteHeader 200 w in w'\<lparr>body := body w' @ bs\<rparr>)"

definition InfoHandler ::
  "(infoResponse \<Rightarrow> bytes) \<Rightarrow> ext \<Rightarrow> (mclient \<Rightarrow> optionsReader) \<Rightarrow>
   (MQTTClientInfo list \<Rightarrow> MQTTClientInfo list) \<Rightarrow> ('v, 'x) client_scheme \<Rightarrow>
   responseWriter \<Rightarrow> responseWriter" where
  "InfoHandler json E R sorter c w =
     (let ir = infoResponseOf E R sorter c;
          w = WriteHeader 200 w;
          w = Header_Set ''Content-Type'' ''application/json'' w
      in Write (json ir) w)"

section \<open>Lemmas\<close>

lemma fold_noteOption:
  "map_of (fold (noteOption topic) opts subs) =
     (case lastQoS opts of None \<Rightarrow> map_of subs | Some q \<Rightarrow> (map_of subs)(topic \<mapsto> q))"
  by (induction opts arbitrary: subs rule: lastQoS.induct)
    (auto simp: noteOption_def update_conv' split: option.split)

lemma read_meta_fold:
  assumes "distinct (map fst es)" and "\<forall>e\<in>set es. map_of subs (fst e) = None"
  shows "map_of (fold (\<lambda>(topic, sub) subs.
       (let subs' = fold (noteOption topic) (smOptions sub) subs
        in if map_of subs' topic = None then AList.update topic QOSZero subs' else subs')) es subs) =
     (\<lambda>t. case map_of es t of Some sub \<Rightarrow> Some (qos (composeOptions (smOptions sub))) | None \<Rightarrow> map_of subs t)"
  using assms
proof (induction es arbitrary: subs)
  case Nil
  then show ?case by simp
next
  case (Cons e es)
  obtain k sub where e: "e = (k, sub)" by (cases e)
  define subs' where "subs' = (let s' = fold (noteOption k) (smOptions sub) subs
      in if map_of s' k = None then AList.update k QOSZero s' else s')"
  have step: "map_of subs' = (map_of subs)(k \<mapsto> qos (composeOptions (smOptions sub)))"
    using Cons.prems(2) e
    by (auto simp: subs'_def Let_def fold_noteOption update_conv' qos_composeOptions QOSZero_def split: option.split)
  have k: "map_of es k = None" using Cons.prems(1) e by (simp add: map_of_eq_None_iff)
  have "\<forall>e\<in>set es. map_of subs' (fst e) = None"
    using Cons.prems e step by (auto simp: rev_image_eqI)
  from Cons.IH [OF _ this] Cons.prems(1) show ?case
    by (auto simp: e step k subs'_def [symmetric] fun_eq_iff split: option.split)
qed

lemma map_of_readSubscriptionMeta:
  assumes dk: "distinct_keys (subscriptions c)" and ord: "perm_list (rangeOrder E)"
  shows "map_of (readSubscriptionMeta E c) =
     (\<lambda>t. map_option (\<lambda>sub. qos (composeOptions (smOptions sub))) (map_of (subscriptions c) t))"
proof -
  have "map_of (readSubscriptionMeta E c) = (\<lambda>t. case map_of (mapEntries (rangeOrder E) (subscriptions c)) t of
      Some sub \<Rightarrow> Some (qos (composeOptions (smOptions sub))) | None \<Rightarrow> None)"
    unfolding readSubscriptionMeta_def
    using read_meta_fold [OF mapEntries_keys [OF dk ord], of "[]"]
    by (simp cong: option.case_cong)
  then show ?thesis
    by (simp add: map_of_mapEntries [OF dk ord] fun_eq_iff split: option.split)
qed

lemma is_digit_dec: "list_all is_digit (dec n)"
proof (induction n rule: dec.induct)
  case (1 n)
  have d: "is_digit (digit d)" if "d < 10" for d
    using that by (simp add: is_digit_def digit_def)
  show ?case
    using 1 d [of n] d [of "n mod 10"] by (cases "n < 10") (simp_all add: dec.simps [of n])
qed

lemma hd_dec: "dec n \<noteq> [] \<and> is_digit (hd (dec n))"
proof -
  have "dec n \<noteq> []" by (cases "n < 10") (simp_all add: dec.simps [of n])
  with is_digit_dec [of n] show ?thesis by (cases "dec n") auto
qed

lemma strconv_Atoi_dec:
  assumes "n < 2 ^ 63"
  shows "strconv_Atoi (dec n) = int n"
proof -
  obtain ch r where d: "dec n = ch # r" and dig: "is_digit ch" using hd_dec [of n] by (cases "dec n") auto
  have "ch \<noteq> CHR ''-''" "ch \<noteq> CHR ''+''" using dig by (auto simp: is_digit_def)
  moreover have "int n \<le> 2 ^ 63 - 1" using assms by simp
  ultimately show ?thesis
    using is_digit_dec [of n] dec_val_dec [of n] unfolding d by (simp add: strconv_Atoi_def min_def)
qed

lemma pushInfo_fields [simp]:
  "trace (pushInfo b c) = trace c" "states (pushInfo b c) = states c"
  "fst (client.more (pushInfo b c)) = fst (client.more c) @ [b]"
  by (cases c; simp add: pushInfo_def split: prod.splits)+

abbreviation connectionInfo :: "ext \<Rightarrow> (mclient \<Rightarrow> optionsReader) \<Rightarrow> ('v, 'x) client_scheme \<Rightarrow> addr \<Rightarrow> MQTTClientInfo" where
  "connectionInfo E R c a \<equiv>
     transformClientInfo E R (trace c) (isClient (states c a)) (set_Values E (subsCalled (states c a)))"

lemma infoOn_calls:
  "fst (client.more (snd (callsInOrder (infoOn E R (\<lambda>cc s. (Return None, s))) xs is rs s))) =
     fst (client.more s) @ map (\<lambda>i. connectionInfo E R s (xs ! i)) is"
  by (induction "is" arbitrary: rs s) (simp_all add: infoOn_def Let_def)

lemma multiClientInfo_mset:
  assumes "ext_ok E" and "wfClient c" and "multiMode c" and "\<And>xs. mset (sorter xs) = mset xs"
  shows "mset (multiClientInfo E R sorter c) = mset (map (connectionInfo E R c) (orderedClients c))"
proof (cases "mqttClients c = []")
  case True
  then show ?thesis
    using assms(1) wfClient_nonempty [OF assms(2)] by (simp add: multiClientInfo_def)
next
  case False
  let ?s = "client.extend (client.truncate c) ([], client.more c)"
  let ?xs = "mapValues (valuesOrder E) (mqttClients c)"
  note vals = wfClient_values [OF assms(2,1)]
  have ne: "length ?xs \<noteq> 0"
    using False vals(3) wfClient_nonempty [OF assms(2)] by (metis mset_zero_iff length_0_conv mset.simps(1))
  have s: "trace ?s = trace c" "states ?s = states c" "fst (client.more ?s) = []" by (simp_all add: client.defs)
  have "execute E context_Background (\<lambda>cc s. (Return None, s)) (ExecOptWithState (infoOn E R)) ?s =
      fanOut E (infoOn E R (\<lambda>cc s. (Return None, s))) ?xs ?s"
    using False assms(3) by (simp add: execute_def execMultiConn_def client.defs)
  then have "mset (multiClientInfo E R sorter c) =
      mset (map (\<lambda>i. connectionInfo E R c (?xs ! i)) (concOrder E (length ?xs)))"
    using ne assms(4) by (simp add: multiClientInfo_def snd_fanOut sliceCalls_def infoOn_calls s)
  also have "\<dots> = mset (map (connectionInfo E R c) (map ((!) ?xs) [0..<length ?xs]))"
    using ext_okD(2) [OF assms(1)] by (simp add: perm_order_def multiset.map_comp comp_def)
  also have "\<dots> = mset (map (connectionInfo E R c) (orderedClients c))"
    unfolding map_nth mset_map vals(3) ..
  finally show ?thesis .
qed

section \<open>Properties\<close>

text \<open>
  The levels a client reports for its subscriptions are the levels it subscribes with:
  every topic of the registry, and no other, is reported with the quality of service that the
  options of its subscription compose to.
\<close>

theorem reported_levels:
  assumes "ext_ok E" and "wfClient c"
  shows "map_of (readSubscriptionMeta E c) =
     (\<lambda>t. map_option (\<lambda>sub. qos (composeOptions (smOptions sub))) (map_of (subscriptions c) t))"
  using assms by (simp add: map_of_readSubscriptionMeta wfClient_def)

theorem reported_levels_witness:
  "map_of (readSubscriptionMeta refExt (refPool\<lparr>subscriptions :=
      [(''t'', \<lparr>smTopic = ''t'', smOptions = [QOSOption QOSOne, Retained True], smCallback = AppHandler 3\<rparr>)]\<rparr>)) = [''t'' \<mapsto> 1]"
proof -
  let ?c = "refPool\<lparr>subscriptions :=
      [(''t'', \<lparr>smTopic = ''t'', smOptions = [QOSOption QOSOne, Retained True], smCallback = AppHandler 3\<rparr>)]\<rparr>"
  have "wfClient ?c" by (simp add: wfClient_registry wfRegistry_def)
  from reported_levels [OF ext_ok_refExt this] show ?thesis
    by (simp add: composeOptions_def QOSOne_def fun_eq_iff)
qed


definition refReader :: "mclient \<Rightarrow> optionsReader" where
  "refReader m = \<lparr>rdServers = [(''localhost'', dec 1883)], rdClientID = dec m, rdUsername = [],
     rdResumeSubs = False, rdCleanSession = True, rdAutoReconnect = True\<rparr>"


text \<open>
  C37: The address of a broker survives the way through a connection's server URL and back:
  from a URL with the host and the port of an address, the client reports that address.
\<close>

theorem reported_address_roundtrip:
  assumes "rdServers (R m) = map (\<lambda>a. (Host a, dec (unat (Port a)))) as"
  shows "Addresses (transformClientInfo E R tr m subs) = as"
proof -
  have "word_of_int (strconv_Atoi (dec (unat p))) = p" for p :: "16 word"
  proof -
    have "unat p < 2 ^ 16" using unsigned_less [of p, where ?'a = nat] by simp
    then have "unat p < 2 ^ 63" by simp
    then show ?thesis by (simp add: strconv_Atoi_dec)
  qed
  then show ?thesis using assms by (simp add: transformClientInfo_def Let_def comp_def)
qed

theorem reported_address_roundtrip_witness:
  "Addresses (transformClientInfo refExt refReader [] 0 []) = [TCPAddress ''localhost'' 1883]"
  by (rule reported_address_roundtrip) (simp add: refReader_def)

text \<open>
  The information handler always answers with status 200, the encoded information and
  the headers that were set before it ran: the content type it sets comes too late to be
  sent.
\<close>

theorem info_handler_headers:
  assumes "sent w = None"
  shows "sent (InfoHandler json E R sorter c w) = Some (200, header w) \<and>
     body (InfoHandler json E R sorter c w) = body w @ json (infoResponseOf E R sorter c)"
  using assms by (simp add: InfoHandler_def Let_def WriteHeader_def Header_Set_def Write_def)

theorem info_handler_headers_witness:
  "sent (InfoHandler (\<lambda>_. []) refExt refReader (\<lambda>xs. xs) refPool \<lparr>header = [], sent = None, body = []\<rparr>) = Some (200, [])"
  using info_handler_headers [of "\<lparr>header = [], sent = None, body = []\<rparr>" "\<lambda>_. []" refExt refReader "\<lambda>xs. xs" refPool]
  by simp

end
