(* ===== verification/Starter.thy ===== *)
theory Starter
  imports Resume
begin

text \<open>
  Starting with retries and waiting for a connection (\<^verbatim>\<open>exp_starter.go\<close>, \<^verbatim>\<open>utils.go\<close>, \<^verbatim>\<open>Run\<close> of
  \<^verbatim>\<open>client.go\<close>). The loops select over channels; what a loop receives is an explicit sequence of
  events, and what it does is the sequence of its actions.
\<close>

section \<open>Exponential start\<close>

datatype starterEvent = StartCancelled | StartResult err

datatype starterAction = CallStart | CallOnRetry ref goerror | Sleep int

definition min_duration :: "int \<Rightarrow> int \<Rightarrow> int" where
  "min_duration x y = (if x < y then x else y)"

text \<open>The loop, with whether it has returned.\<close>

fun starterLoop :: "startOptions \<Rightarrow> int \<Rightarrow> starterEvent list \<Rightarrow> bool \<times> starterAction list" where
  "starterLoop so nextRetryInterval [] = (False, [])"
| "starterLoop so nextRetryInterval (StartCancelled # es) = (True, [])"
| "starterLoop so nextRetryInterval (StartResult None # es) = (True, [])"
| "starterLoop so nextRetryInterval (StartResult (Some e) # es) =
     (let retry = (case onRetry so of Some f \<Rightarrow> [CallOnRetry f e] | None \<Rightarrow> []);
          (fin, as) = starterLoop so (min_duration (wrap64 (nextRetryInterval * 2)) (maxInterval so)) es
      in (fin, retry @ [CallStart, Sleep nextRetryInterval] @ as))"

definition exponentialStartStrategy ::
  "startOptions \<Rightarrow> starterEvent list \<Rightarrow> bool \<times> starterAction list" where
  "exponentialStartStrategy so es =
     (let (fin, as) = starterLoop so (100 * millisecond) es in (fin, CallStart # as))"

definition ExponentialStartStrategy ::
  "StartOption list \<Rightarrow> starterEvent list \<Rightarrow> bool \<times> starterAction list" where
  "ExponentialStartStrategy opts es = exponentialStartStrategy (fold (\<lambda>opt. opt) opts defaultStartOptions) es"

section \<open>Run\<close>

text \<open>
  The attempts that start goroutines make until one succeeds or the context is cancelled,
  each in its environment and with the resolver update it receives.
\<close>

fun startAttempts ::
  "('v, ('v, 'x) client_scheme) handlers \<Rightarrow> (ext \<times> TCPAddress list option) list \<Rightarrow>
   ('v, 'x) client_scheme \<Rightarrow> ('v, 'x) client_scheme" where
  "startAttempts H [] c = c"
| "startAttempts H ((E, upd) # rest) c =
     (case Start H E upd c of (Return None, c') \<Rightarrow> c' | (_, c') \<Rightarrow> startAttempts H rest c')"

definition Run ::
  "('v, ('v, 'x) client_scheme) handlers \<Rightarrow> (ext \<times> TCPAddress list option) list \<Rightarrow> ext \<Rightarrow>
   TCPAddress list option \<Rightarrow> ('v, 'x) client_scheme act" where
  "Run H attempts E upd c =
     (if startOpts (options c) \<noteq> None then stop E (startAttempts H attempts c)
      else case Start H E upd c of (Return None, c') \<Rightarrow> stop E c' | r \<Rightarrow> r)"

section \<open>Waiting for a connection\<close>

datatype waitEvent = WaitTimeout | Tick | Answer bool

text \<open>
  The loop of \<^verbatim>\<open>WaitForConnection\<close>; \<open>asking\<close> while \<^verbatim>\<open>tick\<close> is \<^verbatim>\<open>nil\<close> and an answer is outstanding. A
  tick is not received then, and no answer arrives otherwise. The result has the number of
  calls of \<^verbatim>\<open>IsConnected\<close> it started.
\<close>

fun waitLoop :: "bool \<Rightarrow> waitEvent list \<Rightarrow> bool option \<times> nat" where
  "waitLoop asking [] = (None, 0)"
| "waitLoop asking (WaitTimeout # es) = (Some False, 0)"
| "waitLoop False (Tick # es) = (let (r, n) = waitLoop True es in (r, Suc n))"
| "waitLoop True (Tick # es) = waitLoop True es"
| "waitLoop True (Answer v # es) = (if v then (Some True, 0) else waitLoop False es)"
| "waitLoop False (Answer v # es) = waitLoop False es"

definition WaitForConnection :: "waitEvent list \<Rightarrow> bool option" where
  "WaitForConnection es = fst (waitLoop False es)"

section \<open>Lemmas\<close>

fun sleeps :: "starterAction list \<Rightarrow> int list" where
  "sleeps [] = []"
| "sleeps (Sleep d # as) = d # sleeps as"
| "sleeps (_ # as) = sleeps as"

fun starts :: "starterAction list \<Rightarrow> nat" where
  "starts [] = 0"
| "starts (CallStart # as) = Suc (starts as)"
| "starts (_ # as) = starts as"

lemma sleeps_append [simp]: "sleeps (as @ bs) = sleeps as @ sleeps bs"
  by (induction as rule: sleeps.induct) auto

lemma starts_append [simp]: "starts (as @ bs) = starts as + starts bs"
  by (induction as rule: starts.induct) auto

text \<open>The failures the loop sees before it ends.\<close>

fun failures :: "starterEvent list \<Rightarrow> nat" where
  "failures (StartResult (Some e) # es) = Suc (failures es)"
| "failures _ = 0"

lemma min_doubling:
  assumes "0 < (M :: int)" and "0 < d"
  shows "min (min (d * 2) M * 2 ^ i) M = min (d * 2 ^ Suc i) M"
proof (cases "d * 2 \<le> M")
  case True
  then show ?thesis by (simp add: min_def ac_simps)
next
  case False
  have one: "1 \<le> (2 :: int) ^ i" by simp
  have "M * 1 \<le> M * 2 ^ i" using one assms(1) by (intro mult_left_mono) auto
  moreover have "M * 1 \<le> d * 2 * 2 ^ i" using one False assms by (intro mult_mono) auto
  ultimately show ?thesis using False by (simp add: min_def ac_simps)
qed

lemma starterLoop_sleeps:
  assumes "0 < d" and "d < 2 ^ 62" and "0 < maxInterval so" and "maxInterval so < 2 ^ 62"
  shows "sleeps (snd (starterLoop so d es)) =
     map (\<lambda>i. if i = 0 then d else min (d * 2 ^ i) (maxInterval so)) [0..<failures es]"
  using assms
proof (induction so d es rule: starterLoop.induct)
  case (4 so d e es)
  let ?M = "maxInterval so" and ?d = "min (d * 2) (maxInterval so)"
  have "in64 (d * 2)" using "4.prems" by (simp add: in64_def)
  then have w: "min_duration (wrap64 (d * 2)) ?M = ?d" by (simp add: min_duration_def min_def)
  have d: "0 < ?d" "?d < 2 ^ 62" using "4.prems" by (simp_all add: min_less_iff_disj)
  have "sleeps (snd (starterLoop so ?d es)) =
      map (\<lambda>i. if i = 0 then ?d else min (?d * 2 ^ i) ?M) [0..<failures es]"
    using "4.IH" [OF refl, unfolded w, OF d "4.prems"(3,4)] .
  also have "\<dots> = map (\<lambda>i. min (d * 2 ^ Suc i) ?M) [0..<failures es]"
    by (rule map_cong) (use min_doubling [of ?M d] "4.prems" in auto)
  finally have IH: "sleeps (snd (starterLoop so ?d es)) = map (\<lambda>i. min (d * 2 ^ Suc i) ?M) [0..<failures es]" .
  have "map (\<lambda>i. if i = 0 then d else min (d * 2 ^ i) ?M) [0..<Suc (failures es)] =
      d # map (\<lambda>i. min (d * 2 ^ Suc i) ?M) [0..<failures es]"
    by (simp add: upt_conv_Cons map_Suc_upt [symmetric] comp_def del: upt_Suc)
  then show ?case
    using IH by (auto simp: w Let_def split: prod.splits option.split)
qed simp_all

lemma starterLoop_starts: "starts (snd (starterLoop so d es)) = failures es"
  by (induction so d es rule: starterLoop.induct) (auto simp: Let_def split: prod.splits option.split)

lemma maxInterval_positive:
  "list_all packageStartOption opts \<Longrightarrow> 0 < maxInterval (fold (\<lambda>opt. opt) opts defaultStartOptions)"
  by (rule fold_packageStartOption) (simp_all add: defaultStartOptions_def duration_defs)

lemma waitLoop_true:
  "fst (waitLoop asking es) = Some True \<Longrightarrow> Answer True \<in> set es"
  by (induction asking es rule: waitLoop.induct) (auto split: if_splits prod.splits)

lemma waitLoop_calls:
  "snd (waitLoop asking es) + (if asking then 1 else 0) \<le> Suc (length (filter (\<lambda>e. e = Answer False) es))"
  by (induction asking es rule: waitLoop.induct) (auto split: if_splits prod.splits)

section \<open>Properties\<close>



text \<open>
  Waiting for a connection answers true only after a call of \<^verbatim>\<open>IsConnected\<close> returned true,
  and never has more than one such call outstanding: it starts at most one call more than it
  received negative answers.
\<close>

theorem wait_for_connection_sound:
  "(WaitForConnection es = Some True \<longrightarrow> Answer True \<in> set es) \<and>
   snd (waitLoop False es) \<le> Suc (length (filter (\<lambda>e. e = Answer False) es))"
  using waitLoop_true [of False es] waitLoop_calls [of False es] by (simp add: WaitForConnection_def)

theorem wait_for_connection_sound_witness:
  "WaitForConnection [Tick, Answer False, Tick, Tick, Answer True] = Some True \<and>
   Answer True \<in> set [Tick, Answer False, Tick, Tick, Answer True]"
proof -
  have "WaitForConnection [Tick, Answer False, Tick, Tick, Answer True] = Some True"
    by (simp add: WaitForConnection_def)
  with wait_for_connection_sound [of "[Tick, Answer False, Tick, Tick, Answer True]"] show ?thesis by blast
qed

end
