(* ===== verification/Locks.thy ===== *)
theory Locks
  imports Prelude
begin

text \<open>
  Locks as the client uses them: \<^verbatim>\<open>sync.RWMutex\<close> and \<^verbatim>\<open>sync.Mutex\<close> as their documentation gives
  them, programs that take and release them in a nested way, goroutines that run such programs,
  and fork and join of goroutines. The interface \<open>lock_order\<close> says that every operation takes
  locks in increasing rank only; every run of such operations is finite and none gets stuck.
\<close>

section \<open>Programs and goroutines\<close>

text \<open>
  A section under a read or write lock, or a concurrent map that waits for its calls. A
  \<^verbatim>\<open>sync.Mutex\<close> is a lock that is only taken for writing.
\<close>

datatype 'l prog =
    WithRLock 'l "'l prog list"
  | WithLock 'l "'l prog list"
  | Go "'l prog list list"

text \<open>
  What a goroutine has left to do. \<open>Pending l b\<close> is a call of \<^verbatim>\<open>Lock\<close> that has writerWaits itself
  and waits for the readers to leave; \<open>RUnlock l\<close> and \<open>Unlock l\<close> are the releases the goroutine
  owes; \<open>Join\<close> waits for the goroutines it started.
\<close>

datatype 'l item =
    Do "'l prog"
  | Pending 'l "'l prog list"
  | RUnlock 'l
  | Unlock 'l
  | Join "'l item list list"

type_synonym 'l thread = "'l item list"

record 'l locks =
  readers :: "'l \<Rightarrow> nat"
  writer :: "'l \<Rightarrow> bool"
  writerWaits :: "'l \<Rightarrow> bool"

definition noLocks :: "'l locks" where
  "noLocks = \<lparr>readers = (\<lambda>_. 0), writer = (\<lambda>_. False), writerWaits = (\<lambda>_. False)\<rparr>"

abbreviation begin_prog :: "'l prog list \<Rightarrow> 'l thread" where
  "begin_prog b \<equiv> map Do b"

text \<open>
  \<^verbatim>\<open>RLock\<close> waits while a writer holds the lock or has writerWaits itself; \<^verbatim>\<open>Lock\<close> announces itself
  when no other writer holds or awaits the lock, which keeps new readers out, and has the lock
  when the readers that were there are gone.
\<close>

inductive lockStep :: "'l locks \<times> 'l thread \<Rightarrow> 'l locks \<times> 'l thread \<Rightarrow> bool" where
  rlock: "\<not> writer s l \<Longrightarrow> \<not> writerWaits s l \<Longrightarrow>
    lockStep (s, Do (WithRLock l b) # k)
      (s\<lparr>readers := (readers s)(l := Suc (readers s l))\<rparr>, begin_prog b @ RUnlock l # k)"
| announce: "\<not> writer s l \<Longrightarrow> \<not> writerWaits s l \<Longrightarrow>
    lockStep (s, Do (WithLock l b) # k) (s\<lparr>writerWaits := (writerWaits s)(l := True)\<rparr>, Pending l b # k)"
| lock: "readers s l = 0 \<Longrightarrow> \<not> writer s l \<Longrightarrow> writerWaits s l \<Longrightarrow>
    lockStep (s, Pending l b # k)
      (s\<lparr>writerWaits := (writerWaits s)(l := False), writer := (writer s)(l := True)\<rparr>,
       begin_prog b @ Unlock l # k)"
| runlock: "0 < readers s l \<Longrightarrow>
    lockStep (s, RUnlock l # k) (s\<lparr>readers := (readers s)(l := readers s l - 1)\<rparr>, k)"
| unlock: "writer s l \<Longrightarrow>
    lockStep (s, Unlock l # k) (s\<lparr>writer := (writer s)(l := False)\<rparr>, k)"
| fork: "lockStep (s, Do (Go bs) # k) (s, Join (map begin_prog bs) # k)"
| inside: "lockStep (s, t) (s', t') \<Longrightarrow>
    lockStep (s, Join (us @ t # vs) # k) (s', Join (us @ t' # vs) # k)"
| join: "(\<forall>t\<in>set ts. t = []) \<Longrightarrow> lockStep (s, Join ts # k) (s, k)"

inductive_cases lockStepE: "lockStep c d"
inductive_cases lockStep_ConsE: "lockStep (s, x # k) d"
inductive_simps lockStep_Nil [simp]: "lockStep (s, []) d"

text \<open>Whether a goroutine can go on, computed.\<close>

fun canStep :: "'l locks \<Rightarrow> 'l thread \<Rightarrow> bool" where
  "canStep s [] = False"
| "canStep s (Do (WithRLock l b) # k) = (\<not> writer s l \<and> \<not> writerWaits s l)"
| "canStep s (Do (WithLock l b) # k) = (\<not> writer s l \<and> \<not> writerWaits s l)"
| "canStep s (Do (Go bs) # k) = True"
| "canStep s (Pending l b # k) = (readers s l = 0 \<and> \<not> writer s l \<and> writerWaits s l)"
| "canStep s (RUnlock l # k) = (0 < readers s l)"
| "canStep s (Unlock l # k) = writer s l"
| "canStep s (Join ts # k) = ((\<forall>t\<in>set ts. t = []) \<or> (\<exists>t\<in>set ts. canStep s t))"

lemma canStep_step:
  "canStep s t \<Longrightarrow> \<exists>d. lockStep (s, t) d"
proof (induction s t rule: canStep.induct)
  case (8 s ts k)
  show ?case
  proof (cases "\<forall>t\<in>set ts. t = []")
    case True
    then show ?thesis by (blast intro: lockStep.join)
  next
    case False
    with "8.prems" obtain t where t: "t \<in> set ts" "canStep s t" by auto
    from "8.IH" [OF t] obtain s' t' where "lockStep (s, t) (s', t')" by auto
    with t(1) show ?thesis by (metis in_set_conv_decomp lockStep.inside)
  qed
qed (auto intro: lockStep.intros exI)

lemma step_canStep:
  "lockStep c d \<Longrightarrow> canStep (fst c) (snd c)"
  by (induction rule: lockStep.induct) auto

lemma canStep_iff: "canStep s t \<longleftrightarrow> (\<exists>d. lockStep (s, t) d)"
  using canStep_step step_canStep [of "(s, t)"] by auto

section \<open>Every run is finite\<close>

fun progWeight :: "'l prog \<Rightarrow> nat" where
  "progWeight (WithRLock l b) = 2 + sum_list (map progWeight b)"
| "progWeight (WithLock l b) = 3 + sum_list (map progWeight b)"
| "progWeight (Go bs) = 2 + sum_list (map (\<lambda>b. sum_list (map progWeight b)) bs)"

fun itemWeight :: "'l item \<Rightarrow> nat" where
  "itemWeight (Do p) = progWeight p"
| "itemWeight (Pending l b) = 2 + sum_list (map progWeight b)"
| "itemWeight (RUnlock l) = 1"
| "itemWeight (Unlock l) = 1"
| "itemWeight (Join ts) = 1 + sum_list (map (\<lambda>t. sum_list (map itemWeight t)) ts)"

definition weight :: "'l thread \<Rightarrow> nat" where
  "weight t = sum_list (map itemWeight t)"

lemma weight_simps [simp]:
  "weight [] = 0"
  "weight (x # t) = itemWeight x + weight t"
  "weight (t @ u) = weight t + weight u"
  "weight (begin_prog b) = sum_list (map progWeight b)"
  by (simp_all add: weight_def comp_def)

lemma itemWeight_Join: "itemWeight (Join ts) = 1 + sum_list (map weight ts)"
  by (simp add: weight_def [abs_def])

lemma step_weight:
  "lockStep c d \<Longrightarrow> weight (snd d) < weight (snd c)"
  by (induction rule: lockStep.induct)
    (auto simp: itemWeight_Join comp_def simp del: itemWeight.simps(5))

section \<open>What a goroutine holds\<close>

text \<open>How many releases of a kind a goroutine and those it started owe.\<close>

fun owes :: "('l item \<Rightarrow> bool) \<Rightarrow> 'l item \<Rightarrow> nat" where
  "owes P (Join ts) = sum_list (map (\<lambda>t. sum_list (map (owes P) t)) ts)"
| "owes P x = (if P x then 1 else 0)"

definition owed :: "('l item \<Rightarrow> bool) \<Rightarrow> 'l thread \<Rightarrow> nat" where
  "owed P t = sum_list (map (owes P) t)"

abbreviation reading :: "'l \<Rightarrow> 'l thread \<Rightarrow> nat" where
  "reading l \<equiv> owed (\<lambda>x. x = RUnlock l)"

abbreviation writing :: "'l \<Rightarrow> 'l thread \<Rightarrow> nat" where
  "writing l \<equiv> owed (\<lambda>x. x = Unlock l)"

abbreviation awaiting :: "'l \<Rightarrow> 'l thread \<Rightarrow> nat" where
  "awaiting l \<equiv> owed (\<lambda>x. \<exists>b. x = Pending l b)"

lemma owed_simps [simp]:
  "owed P [] = 0"
  "owed P (x # t) = owes P x + owed P t"
  "owed P (t @ u) = owed P t + owed P u"
  by (simp_all add: owed_def)

lemma owes_Join: "owes P (Join ts) = sum_list (map (owed P) ts)"
  by (simp add: owed_def [abs_def])

lemma owed_begin_prog [simp]: "(\<And>p. \<not> P (Do p)) \<Longrightarrow> owed P (begin_prog b) = 0"
  by (simp add: owed_def comp_def)

lemma owes_mono: "(\<And>x. P x \<Longrightarrow> Q x) \<Longrightarrow> owes P x \<le> owes Q x"
proof (induction P x rule: owes.induct)
  case (1 P ts)
  then show ?case by (auto intro!: sum_list_mono)
qed auto

lemma owed_mono: "(\<And>x. P x \<Longrightarrow> Q x) \<Longrightarrow> owed P t \<le> owed Q t"
  unfolding owed_def by (intro sum_list_mono owes_mono)

lemma owed_weaken:
  assumes "reading l t \<noteq> 0 \<or> writing l t \<noteq> 0"
  shows "owed (\<lambda>x. x = RUnlock l \<or> x = Unlock l) t \<noteq> 0"
  using assms owed_mono [of "\<lambda>x. x = RUnlock l" "\<lambda>x. x = RUnlock l \<or> x = Unlock l" t]
    owed_mono [of "\<lambda>x. x = Unlock l" "\<lambda>x. x = RUnlock l \<or> x = Unlock l" t]
  by auto

text \<open>The lock state is what the goroutines owe.\<close>

definition agrees :: "'l locks \<Rightarrow> 'l thread \<Rightarrow> bool" where
  "agrees s t \<longleftrightarrow> (\<forall>l. readers s l = reading l t \<and>
     writing l t = of_bool (writer s l) \<and> awaiting l t = of_bool (writerWaits s l) \<and>
     (writer s l \<longrightarrow> readers s l = 0 \<and> \<not> writerWaits s l))"

text \<open>
  A step changes the locks by what it changes in its goroutine, whatever the others hold.
\<close>

lemma step_balance:
  "lockStep c d \<Longrightarrow>
    readers (fst d) l + reading l (snd c) = readers (fst c) l + reading l (snd d) \<and>
    of_bool (writer (fst d) l) + writing l (snd c) =
      of_bool (writer (fst c) l) + writing l (snd d) \<and>
    of_bool (writerWaits (fst d) l) + awaiting l (snd c) =
      of_bool (writerWaits (fst c) l) + awaiting l (snd d)"
  by (induction rule: lockStep.induct) (auto simp: owes_Join simp del: owes.simps(1))

lemma step_exclusive:
  assumes "lockStep c d" and "\<forall>l. writer (fst c) l \<longrightarrow> readers (fst c) l = 0 \<and> \<not> writerWaits (fst c) l"
  shows "\<forall>l. writer (fst d) l \<longrightarrow> readers (fst d) l = 0 \<and> \<not> writerWaits (fst d) l"
  using assms by (induction rule: lockStep.induct) auto

lemma step_agrees:
  assumes st: "lockStep c d" and ag: "agrees (fst c) (snd c)"
  shows "agrees (fst d) (snd d)"
proof -
  have ex: "\<forall>l. writer (fst c) l \<longrightarrow> readers (fst c) l = 0 \<and> \<not> writerWaits (fst c) l"
    using ag by (auto simp: agrees_def)
  show ?thesis
    unfolding agrees_def
  proof (intro allI conjI)
    fix l
    have a: "readers (fst c) l = reading l (snd c)" "writing l (snd c) = of_bool (writer (fst c) l)"
      "awaiting l (snd c) = of_bool (writerWaits (fst c) l)"
      using ag by (simp_all add: agrees_def)
    note b = step_balance [OF st, of l]
    from a(1) b show "readers (fst d) l = reading l (snd d)" by linarith
    from a(2) b show "writing l (snd d) = of_bool (writer (fst d) l)" by linarith
    from a(3) b show "awaiting l (snd d) = of_bool (writerWaits (fst d) l)" by linarith
    from step_exclusive [OF st ex]
    show "writer (fst d) l \<longrightarrow> readers (fst d) l = 0 \<and> \<not> writerWaits (fst d) l" by blast
  qed
qed

lemma agrees_noLocks: "agrees noLocks t \<longleftrightarrow> (\<forall>l. reading l t = 0 \<and> writing l t = 0 \<and> awaiting l t = 0)"
  by (auto simp: agrees_def noLocks_def)

lemma agrees_finished: "agrees s [] \<longleftrightarrow> s = noLocks"
  by (cases s) (auto simp: agrees_def noLocks_def fun_eq_iff)

definition covers :: "'l locks \<Rightarrow> 'l thread \<Rightarrow> bool" where
  "covers s t \<longleftrightarrow> (\<forall>l. reading l t \<le> readers s l \<and> writing l t \<le> of_bool (writer s l) \<and>
     awaiting l t \<le> of_bool (writerWaits s l))"

lemma agrees_covers: "agrees s t \<Longrightarrow> covers s t"
  by (simp add: agrees_def covers_def)

lemma owed_member: "t \<in> set ts \<Longrightarrow> owed P t \<le> owed P (Join ts # k)"
  by (simp add: owes_Join del: owes.simps(1)) (simp add: member_le_sum_list trans_le_add1)

lemma weight_member: "t \<in> set ts \<Longrightarrow> weight t < weight (Join ts # k)"
  by (simp add: itemWeight_Join del: itemWeight.simps(5))
    (simp add: member_le_sum_list trans_le_add1 le_imp_less_Suc)

lemma covers_inside:
  assumes "covers s (Join ts # k)" and "t \<in> set ts"
  shows "covers s t"
  unfolding covers_def
proof (intro allI conjI)
  fix l
  note le = owed_member [OF assms(2), of _ k]
  have c: "reading l (Join ts # k) \<le> readers s l"
    "writing l (Join ts # k) \<le> of_bool (writer s l)"
    "awaiting l (Join ts # k) \<le> of_bool (writerWaits s l)"
    using assms(1) unfolding covers_def by blast+
  show "reading l t \<le> readers s l" by (rule order_trans [OF le c(1)])
  show "writing l t \<le> of_bool (writer s l)" by (rule order_trans [OF le c(2)])
  show "awaiting l t \<le> of_bool (writerWaits s l)" by (rule order_trans [OF le c(3)])
qed

lemma covers_head:
  assumes "covers s (x # k)"
  shows "x = RUnlock l \<Longrightarrow> 0 < readers s l" and "x = Unlock l \<Longrightarrow> writer s l"
    and "x = Pending l b \<Longrightarrow> writerWaits s l"
  using spec [OF iffD1 [OF covers_def assms], of l] by (auto simp: of_bool_def split: if_splits)

lemma not_canStep_Join:
  assumes "\<not> canStep s (Join ts # k)"
  shows "\<exists>t\<in>set ts. t \<noteq> []" and "t \<in> set ts \<Longrightarrow> \<not> canStep s t"
  using assms by auto

section \<open>Taking locks in order\<close>

locale lock_rank =
  fixes rank :: "'l \<Rightarrow> nat" and top_rank :: nat
  assumes rank_top: "rank l \<le> top_rank"
begin

text \<open>A program that takes only locks of rank \<open>n\<close> or more, and inside a lock only higher ones.\<close>

fun ordered :: "nat \<Rightarrow> 'l prog \<Rightarrow> bool" where
  "ordered n (WithRLock l b) \<longleftrightarrow> n \<le> rank l \<and> (\<forall>p\<in>set b. ordered (Suc (rank l)) p)"
| "ordered n (WithLock l b) \<longleftrightarrow> n \<le> rank l \<and> (\<forall>p\<in>set b. ordered (Suc (rank l)) p)"
| "ordered n (Go bs) \<longleftrightarrow> (\<forall>b\<in>set bs. \<forall>p\<in>set b. ordered n p)"

text \<open>The least rank that is above everything a goroutine holds itself.\<close>

fun above :: "nat \<Rightarrow> 'l thread \<Rightarrow> nat" where
  "above n [] = n"
| "above n (RUnlock l # k) = max (Suc (rank l)) (above n k)"
| "above n (Unlock l # k) = max (Suc (rank l)) (above n k)"
| "above n (x # k) = above n k"

definition resting :: "'l thread \<Rightarrow> bool" where
  "resting k \<longleftrightarrow> (\<forall>x\<in>set k. (\<forall>l b. x \<noteq> Pending l b) \<and> (\<forall>ts. x \<noteq> Join ts))"

text \<open>What a goroutine has left keeps to the order; it waits only at its next step.\<close>

inductive orderedThread :: "nat \<Rightarrow> 'l thread \<Rightarrow> bool" where
  empty: "orderedThread n []"
| prog: "ordered (above n k) p \<Longrightarrow> orderedThread n k \<Longrightarrow> resting k \<Longrightarrow> orderedThread n (Do p # k)"
| pending: "above n k \<le> rank l \<Longrightarrow> \<forall>p\<in>set b. ordered (Suc (rank l)) p \<Longrightarrow> orderedThread n k \<Longrightarrow>
    resting k \<Longrightarrow> orderedThread n (Pending l b # k)"
| rheld: "above n k \<le> rank l \<Longrightarrow> orderedThread n k \<Longrightarrow> resting k \<Longrightarrow> orderedThread n (RUnlock l # k)"
| held: "above n k \<le> rank l \<Longrightarrow> orderedThread n k \<Longrightarrow> resting k \<Longrightarrow> orderedThread n (Unlock l # k)"
| forked: "\<forall>t\<in>set ts. orderedThread (above n k) t \<Longrightarrow> orderedThread n k \<Longrightarrow> resting k \<Longrightarrow>
    orderedThread n (Join ts # k)"

inductive_simps orderedThread_simps [simp]:
  "orderedThread n []" "orderedThread n (Do p # k)" "orderedThread n (Pending l b # k)"
  "orderedThread n (RUnlock l # k)" "orderedThread n (Unlock l # k)" "orderedThread n (Join ts # k)"

lemma resting_simps [simp]:
  "resting []" "resting (Do p # k) = resting k" "resting (RUnlock l # k) = resting k"
  "resting (Unlock l # k) = resting k" "resting (begin_prog b @ k) = resting k"
  by (auto simp: resting_def)

lemma above_begin_prog [simp]: "above n (begin_prog b @ k) = above n k"
  by (induction b) auto

lemma above_ge: "n \<le> above n k"
  by (induction n k rule: above.induct) auto

lemma ordered_mono: "ordered n p \<Longrightarrow> m \<le> n \<Longrightarrow> ordered m p"
  by (induction n p arbitrary: m rule: ordered.induct) auto

lemma orderedThread_begin_prog:
  assumes "\<forall>p\<in>set b. ordered (above n k) p" and "orderedThread n k" and "resting k"
  shows "orderedThread n (begin_prog b @ k)"
  using assms by (induction b) auto

lemma orderedThread_start: "\<forall>p\<in>set b. ordered n p \<Longrightarrow> orderedThread n (begin_prog b)"
  using orderedThread_begin_prog [of b n "[]"] by simp

lemma step_ordered:
  "lockStep c d \<Longrightarrow> orderedThread n (snd c) \<Longrightarrow> orderedThread n (snd d)"
proof (induction arbitrary: n rule: lockStep.induct)
  case (rlock s l b k)
  then show ?case
    by (auto intro!: orderedThread_begin_prog simp: max_def)
next
  case (lock s l b k)
  then show ?case
    by (auto intro!: orderedThread_begin_prog simp: max_def)
next
  case (fork s bs k)
  then show ?case by (auto intro!: orderedThread_start)
qed auto

lemma orderedThread_tail: "orderedThread n (x # k) \<Longrightarrow> resting k"
  by (cases x) auto

text \<open>When every lock from some rank on is free, a goroutine that holds only lower ones goes on.\<close>

lemma free_above_canStep:
  assumes "orderedThread n t" and "t \<noteq> []" and "m \<le> above n t" and "covers s t"
    and free: "\<forall>l. m \<le> rank l \<longrightarrow> readers s l = 0 \<and> \<not> writer s l \<and> \<not> writerWaits s l"
  shows "canStep s t"
  using assms(1-4)
proof (induction rule: orderedThread.induct)
  case (prog n k p)
  show ?case
  proof (cases p)
    case (WithRLock l b)
    with prog free show ?thesis by auto
  next
    case (WithLock l b)
    with prog free show ?thesis by auto
  qed simp
next
  case (forked ts n k)
  show ?case
  proof (cases "\<forall>t\<in>set ts. t = []")
    case False
    then obtain t where t: "t \<in> set ts" "t \<noteq> []" by blast
    have "m \<le> above (above n k) t" using forked.prems above_ge [of "above n k" t] by simp
    with forked t covers_inside [OF forked.prems(3) t(1)] have "canStep s t" by auto
    with t show ?thesis by auto
  qed simp
next
  case (pending n k l b)
  with free covers_head(3) [of s "Pending l b" k l b] show ?case by auto
qed (auto dest: covers_head)

text \<open>Whoever holds a lock goes on when every lock of a higher rank is free.\<close>

lemma above_held:
  assumes "x \<in> set t" and "x = RUnlock l \<or> x = Unlock l"
  shows "Suc (rank l) \<le> above n t"
  using assms by (induction n t rule: above.induct) auto

lemma resting_owed: "resting k \<Longrightarrow> owed P k \<noteq> 0 \<Longrightarrow> \<exists>x\<in>set k. P x"
proof (induction k)
  case (Cons x k)
  then show ?case by (cases x) (auto simp: resting_def split: if_splits)
qed simp

lemma owed_cases:
  assumes "orderedThread n t" and "owed P t \<noteq> 0"
  obtains (here) x where "x \<in> set t" and "P x"
  | (inside) ts k u where "t = Join ts # k" and "u \<in> set ts" and "owed P u \<noteq> 0"
proof (cases t)
  case Nil
  with assms show ?thesis by simp
next
  case (Cons x k)
  then have "owed P k \<noteq> 0 \<Longrightarrow> \<exists>y\<in>set k. P y"
    using orderedThread_tail assms(1) resting_owed by blast
  then show ?thesis
    using here inside assms(2) Cons
    by (cases x) (auto simp: owes_Join simp del: owes.simps(1) split: if_splits)
qed

lemma orderedThread_inside:
  "orderedThread n (Join ts # k) \<Longrightarrow> t \<in> set ts \<Longrightarrow> orderedThread (above n k) t"
  by simp

lemma holder_canStep:
  assumes "orderedThread n t" and "covers s t" and "owed (\<lambda>x. x = RUnlock l \<or> x = Unlock l) t \<noteq> 0"
    and free: "\<forall>l'. rank l < rank l' \<longrightarrow> readers s l' = 0 \<and> \<not> writer s l' \<and> \<not> writerWaits s l'"
  shows "canStep s t"
  using assms(1-3)
proof (induction t arbitrary: n rule: measure_induct_rule [of weight])
  case (less t)
  from less.prems(1,3) show ?case
  proof (cases rule: owed_cases)
    case (here x)
    then have "Suc (rank l) \<le> above n t" by (rule above_held)
    with here less.prems free show ?thesis
      by (intro free_above_canStep [of n t "Suc (rank l)"]) auto
  next
    case (inside ts k u)
    with less have "canStep s u"
      by (meson covers_inside orderedThread_inside weight_member)
    with inside show ?thesis by auto
  qed
qed

text \<open>A writer that has writerWaits itself goes on when nobody has the lock.\<close>

lemma waiter_canStep:
  assumes "orderedThread n t" and "covers s t" and "awaiting l t \<noteq> 0"
    and free: "readers s l = 0" "\<not> writer s l"
  shows "canStep s t"
  using assms(1-3)
proof (induction t arbitrary: n rule: measure_induct_rule [of weight])
  case (less t)
  from less.prems(1,3) show ?case
  proof (cases rule: owed_cases)
    case (here x)
    then obtain k b where "t = Pending l b # k"
      using orderedThread_tail less.prems(1) by (cases t) (fastforce simp: resting_def)+
    with free less.prems covers_head(3) show ?thesis by fastforce
  next
    case (inside ts k u)
    with less have "canStep s u"
      by (meson covers_inside orderedThread_inside weight_member)
    with inside show ?thesis by auto
  qed
qed

text \<open>So the holder, or else the waiter, of a lock of the highest rank in use goes on.\<close>

lemma highest_in_use:
  assumes "in_use l0"
  obtains l where "in_use l" and "\<forall>l'. rank l < rank l' \<longrightarrow> \<not> in_use l'"
proof -
  from ex_has_greatest_nat [of in_use l0 rank "Suc top_rank"] assms rank_top
  obtain l where "in_use l" and "\<forall>l'. in_use l' \<longrightarrow> rank l' \<le> rank l" by (auto simp: le_imp_less_Suc)
  then show ?thesis by (intro that) (auto simp: not_le [symmetric])
qed

lemma ordered_canStep:
  assumes ord: "orderedThread 0 t" and ag: "agrees s t" and "t \<noteq> []"
  shows "canStep s t"
proof (rule ccontr)
  assume stuck: "\<not> canStep s t"
  note cov = agrees_covers [OF ag]
  have owe: "readers s l = reading l t" "of_bool (writer s l) = writing l t"
    "of_bool (writerWaits s l) = awaiting l t" for l
    using ag by (auto simp: agrees_def)
  have no_holder: "readers s l = 0 \<and> \<not> writer s l"
    if "\<forall>l'. rank l < rank l' \<longrightarrow> readers s l' = 0 \<and> \<not> writer s l' \<and> \<not> writerWaits s l'" for l
  proof (rule ccontr)
    assume "\<not> ?thesis"
    with owe(1,2) [of l] have "reading l t \<noteq> 0 \<or> writing l t \<noteq> 0" by auto
    then have "owed (\<lambda>x. x = RUnlock l \<or> x = Unlock l) t \<noteq> 0" by (rule owed_weaken)
    with holder_canStep [OF ord cov _ that] stuck show False by blast
  qed
  show False
  proof (cases "\<exists>l. readers s l \<noteq> 0 \<or> writer s l \<or> writerWaits s l")
    case True
    then obtain l0 where "readers s l0 \<noteq> 0 \<or> writer s l0 \<or> writerWaits s l0" ..
    then obtain l where l: "readers s l \<noteq> 0 \<or> writer s l \<or> writerWaits s l"
      and high: "\<forall>l'. rank l < rank l' \<longrightarrow> \<not> (readers s l' \<noteq> 0 \<or> writer s l' \<or> writerWaits s l')"
      by (rule highest_in_use)
    from high have nh: "readers s l = 0 \<and> \<not> writer s l" by (intro no_holder) blast
    with l owe(3) [of l] have "awaiting l t \<noteq> 0" by auto
    with waiter_canStep [OF ord cov] nh stuck show False by blast
  next
    case False
    with free_above_canStep [OF ord \<open>t \<noteq> []\<close> _ cov, of 0] stuck show False by blast
  qed
qed

end

text \<open>Every run is finite, and can be continued until everything is done and every lock is free.\<close>

definition lockWeight :: "'l locks \<times> 'l thread \<Rightarrow> nat" where
  "lockWeight c = weight (snd c)"

sublocale lock_rank < run: winding_down lockStep "\<lambda>c. agrees (fst c) (snd c) \<and> orderedThread 0 (snd c)"
  lockWeight "\<lambda>_. True" "\<lambda>c. snd c = []"
proof
  fix c d :: "'l locks \<times> 'l thread"
  assume c: "agrees (fst c) (snd c) \<and> orderedThread 0 (snd c)"
  show "lockStep c d \<Longrightarrow> agrees (fst d) (snd d) \<and> orderedThread 0 (snd d)"
    using c step_agrees step_ordered by blast
  show "lockStep c d \<Longrightarrow> lockWeight d < lockWeight c"
    using step_weight by (simp add: lockWeight_def)
  show "snd c \<noteq> [] \<Longrightarrow> \<exists>d. lockStep c d \<and> True"
    using c ordered_canStep [of "snd c" "fst c"] by (simp add: canStep_iff)
qed

text \<open>The operations of a component, each with its program of locks, and calls of them at once.\<close>

definition together :: "('op \<Rightarrow> 'l prog list) \<Rightarrow> 'op list \<Rightarrow> 'l thread" where
  "together program ops = [Join (map (\<lambda>op. begin_prog (program op)) ops)]"

lemma agrees_together [simp]: "agrees noLocks (together program ops)"
  by (auto simp: agrees_noLocks together_def owes_Join comp_def simp del: owes.simps(1))

locale lock_order = lock_rank rank top_rank
  for rank :: "'l \<Rightarrow> nat" and top_rank :: nat +
  fixes program :: "'op \<Rightarrow> 'l prog list" and orderly :: "'op \<Rightarrow> bool"
  assumes program_ordered: "orderly op \<Longrightarrow> \<forall>p\<in>set (program op). ordered 0 p"
begin

lemma together_ordered:
  "\<forall>op\<in>set ops. orderly op \<Longrightarrow> orderedThread 0 (together program ops)"
  using program_ordered by (auto simp: together_def intro!: orderedThread_start)

lemma orderly_run:
  assumes "\<forall>op\<in>set ops. orderly op" and "(lockStep ^^ n) (noLocks, together program ops) (s, t)"
  shows "n \<le> weight (together program ops)" and "t \<noteq> [] \<Longrightarrow> canStep s t"
    and "lockStep\<^sup>*\<^sup>* (s, t) (noLocks, [])"
proof -
  have start: "agrees (fst (noLocks, together program ops)) (snd (noLocks, together program ops)) \<and>
      orderedThread 0 (snd (noLocks, together program ops))"
    using assms(1) together_ordered by simp
  show "n \<le> weight (together program ops)"
    using run.bounded_run [OF start assms(2)] by (simp add: lockWeight_def)
  have inv: "agrees (fst (s, t)) (snd (s, t)) \<and> orderedThread 0 (snd (s, t))"
    using run.keeps_run [OF start assms(2)] .
  then show "t \<noteq> [] \<Longrightarrow> canStep s t" using ordered_canStep [of t s] by simp
  obtain d where "lockStep\<^sup>*\<^sup>* (s, t) d" "agrees (fst d) (snd d)" "snd d = []"
    using run.comes_to_rest [OF inv] by blast
  then show "lockStep\<^sup>*\<^sup>* (s, t) (noLocks, [])" by (cases d) (simp add: agrees_finished)
qed

end

end
