(* ===== verification/ClientLocks.thy ===== *)
theory ClientLocks
  imports Locks Reference
begin

text \<open>
  The locks of the client: \<^verbatim>\<open>subMu\<close> and \<^verbatim>\<open>clientMu\<close> of \<^verbatim>\<open>Client\<close> and \<^verbatim>\<open>mu\<close> of every \<^verbatim>\<open>internalState\<close>.
  Each definition is the sequence of locks that the named function takes, for the client \<open>c\<close>
  that the call sees; calls to the MQTT library take none of them and come back. A concurrent
  map whose calls take no lock is left out. All operations but the telemetry keep the order
  \<^verbatim>\<open>subMu\<close>, \<^verbatim>\<open>clientMu\<close>, \<^verbatim>\<open>mu\<close>: they never block each other for good. The telemetry reads
  \<^verbatim>\<open>clientMu\<close> twice, and blocks for good when a writer comes in between.
\<close>

section \<open>Programs of locks\<close>

datatype lockName = SubMu | ClientMu | StateMu addr

type_synonym lockProg = "lockName prog list"

text \<open>
  \<^verbatim>\<open>execute\<close>: the function it runs takes no lock, an option with state may take the one of its
  connection.
\<close>

definition executeLocks ::
  "('v, 'x) client_scheme \<Rightarrow> (addr \<Rightarrow> lockProg) option \<Rightarrow> lockProg" where
  "executeLocks c eo = [WithRLock ClientMu
     (if mqttClient c = None \<and> length (mqttClients c) = 0 then []
      else if poolEnabled (options c) \<or> multiConnectionMode (options c)
      then (case eo of None \<Rightarrow> [] | Some f \<Rightarrow> [Go (map (\<lambda>(_, a). f a) (mqttClients c))])
      else [])]"

definition subscribeOnlyOnceLocks :: "addr \<Rightarrow> lockProg" where
  "subscribeOnlyOnceLocks a = [WithLock (StateMu a) []]"

definition subscribeFuncLocks :: "('v, 'x) client_scheme \<Rightarrow> string \<Rightarrow> lockProg" where
  "subscribeFuncLocks c topic = executeLocks c
     (if sharedSubscriptionPredicate (options c) topic then Some subscribeOnlyOnceLocks else None)"

text \<open>\<open>ok\<close> is whether the call on the connections returned no error.\<close>

definition SubscribeLocks :: "('v, 'x) client_scheme \<Rightarrow> string \<Rightarrow> bool \<Rightarrow> lockProg" where
  "SubscribeLocks c topic ok =
     subscribeFuncLocks c topic @ (if ok then [WithLock SubMu []] else [])"

definition subscribeMultipleFuncLocks :: "('v, 'x) client_scheme \<Rightarrow> string list \<Rightarrow> lockProg" where
  "subscribeMultipleFuncLocks c topics =
     (let shared = filter (sharedSubscriptionPredicate (options c)) topics;
          normal = filter (\<lambda>t. \<not> sharedSubscriptionPredicate (options c) t) topics
      in [Go ((if 0 < length shared then [executeLocks c None] else []) @
              (if 0 < length normal then [executeLocks c None] else []))])"

definition SubscribeMultipleLocks :: "('v, 'x) client_scheme \<Rightarrow> string list \<Rightarrow> bool \<Rightarrow> lockProg" where
  "SubscribeMultipleLocks c topics ok =
     subscribeMultipleFuncLocks c topics @ (if ok then [WithLock SubMu []] else [])"

definition removeSubsFromStateLocks :: "addr \<Rightarrow> lockProg" where
  "removeSubsFromStateLocks a = [WithLock (StateMu a) []]"

definition UnsubscribeLocks :: "('v, 'x) client_scheme \<Rightarrow> bool \<Rightarrow> lockProg" where
  "UnsubscribeLocks c ok =
     executeLocks c (Some removeSubsFromStateLocks) @ (if ok then [WithLock SubMu []] else [])"

definition resumeSubscriptionsLocks :: "('v, 'x) client_scheme \<Rightarrow> lockProg" where
  "resumeSubscriptionsLocks c = [WithRLock SubMu
     (if length (subscriptions c) = 0 then []
      else [Go (map (\<lambda>(_, tm). subscribeFuncLocks c (smTopic tm)) (subscriptions c))])]"

text \<open>Here \<open>c\<close> is the client with the new connections, as \<^verbatim>\<open>resumeSubscriptions\<close> sees it.\<close>

definition attemptMultiConnectionsLocks :: "('v, 'x) client_scheme \<Rightarrow> lockProg" where
  "attemptMultiConnectionsLocks c = WithLock ClientMu [] # resumeSubscriptionsLocks c"

definition reloadClientLocks :: lockProg where
  "reloadClientLocks = [WithLock ClientMu []]"

definition attemptSingleConnectionLocks ::
  "('v, 'x) client_scheme \<Rightarrow> TCPAddress list \<Rightarrow> lockProg" where
  "attemptSingleConnectionLocks c addrs =
     (if length addrs = 0 then reloadClientLocks
      else reloadClientLocks @ resumeSubscriptionsLocks c)"

definition attemptConnectionsLocks ::
  "('v, 'x) client_scheme \<Rightarrow> TCPAddress list \<Rightarrow> lockProg" where
  "attemptConnectionsLocks c addrs =
     (if multiConnectionMode (options c) then attemptMultiConnectionsLocks c
      else attemptSingleConnectionLocks c addrs)"

definition stopLocks :: "('v, 'x) client_scheme \<Rightarrow> bool \<Rightarrow> lockProg" where
  "stopLocks c ok = executeLocks c None @ (if ok then [WithLock ClientMu []] else [])"

definition removeStoredSubsCalledLocks :: "('v, 'x) client_scheme \<Rightarrow> mclient \<Rightarrow> lockProg" where
  "removeStoredSubsCalledLocks c cc = [WithRLock ClientMu
     (concat (map (\<lambda>(_, a). if isClient (states c a) = cc then [WithLock (StateMu a) []] else [])
        (mqttClients c)))]"

definition multiClientInfoLocks :: "('v, 'x) client_scheme \<Rightarrow> lockProg" where
  "multiClientInfoLocks c = [WithRLock ClientMu
     (if length (mqttClients c) = 0 then []
      else executeLocks c (Some (\<lambda>a. [WithLock (StateMu a) []])))]"

definition singleClientInfoLocks :: "('v, 'x) client_scheme \<Rightarrow> lockProg" where
  "singleClientInfoLocks c = [WithRLock ClientMu
     (if mqttClient c = None then [] else executeLocks c None)]"

definition infoResponseLocks :: "('v, 'x) client_scheme \<Rightarrow> lockProg" where
  "infoResponseLocks c = WithRLock SubMu [] #
     (if multiConnectionMode (options c) \<or> poolEnabled (options c) then multiClientInfoLocks c
      else singleClientInfoLocks c)"

section \<open>Calls\<close>

text \<open>
  What may run at once: the calls of the application, the handler of lost connections, the
  watcher with the updates it gets one after the other, and the telemetry, from the HTTP handler
  or a tick of the emitter.
\<close>

datatype 'v call =
    CallPublish "'v client"
  | CallSubscribe "'v client" string bool
  | CallSubscribeMultiple "'v client" "string list" bool
  | CallUnsubscribe "'v client" bool
  | CallIsConnected "'v client"
  | CallConnect "'v client"
  | CallStop "'v client" bool
  | CallConnectionLost "'v client" mclient
  | CallWatch "('v client \<times> TCPAddress list) list"
  | CallInfo "'v client"

fun lockProgram :: "'v call \<Rightarrow> lockProg" where
  "lockProgram (CallPublish c) = executeLocks c None"
| "lockProgram (CallSubscribe c topic ok) = SubscribeLocks c topic ok"
| "lockProgram (CallSubscribeMultiple c topics ok) = SubscribeMultipleLocks c topics ok"
| "lockProgram (CallUnsubscribe c ok) = UnsubscribeLocks c ok"
| "lockProgram (CallIsConnected c) = executeLocks c None"
| "lockProgram (CallConnect c) = executeLocks c None"
| "lockProgram (CallStop c ok) = stopLocks c ok"
| "lockProgram (CallConnectionLost c cc) = removeStoredSubsCalledLocks c cc"
| "lockProgram (CallWatch updates) = concat (map (\<lambda>(c, addrs). attemptConnectionsLocks c addrs) updates)"
| "lockProgram (CallInfo c) = infoResponseLocks c"

text \<open>Whether the client has a connection in its mode, which is when telemetry calls \<^verbatim>\<open>execute\<close>.\<close>

definition hasConnection :: "('v, 'x) client_scheme \<Rightarrow> bool" where
  "hasConnection c \<longleftrightarrow> (if multiConnectionMode (options c) \<or> poolEnabled (options c)
     then mqttClients c \<noteq> [] else mqttClient c \<noteq> None)"

fun reentrant :: "'v call \<Rightarrow> bool" where
  "reentrant (CallInfo c) = hasConnection c"
| "reentrant _ = False"

section \<open>The order of the locks\<close>

fun lockRank :: "lockName \<Rightarrow> nat" where
  "lockRank SubMu = 0"
| "lockRank ClientMu = 1"
| "lockRank (StateMu a) = 2"

interpretation clr: lock_rank lockRank 2
proof
  show "lockRank l \<le> 2" for l by (cases l) auto
qed

lemmas attempt_lock_defs = attemptConnectionsLocks_def attemptMultiConnectionsLocks_def
  attemptSingleConnectionLocks_def reloadClientLocks_def

lemma executeLocks_cases:
  obtains (plain) "executeLocks c eo = [WithRLock ClientMu []]"
  | (fan) f where "eo = Some f"
      "executeLocks c eo = [WithRLock ClientMu [Go (map (\<lambda>(_, a). f a) (mqttClients c))]]"
proof -
  have "executeLocks c eo = [WithRLock ClientMu []] \<or> (\<exists>f. eo = Some f \<and>
      executeLocks c eo = [WithRLock ClientMu [Go (map (\<lambda>(_, a). f a) (mqttClients c))]])"
    unfolding executeLocks_def by (cases eo) simp_all
  then show ?thesis using plain fan by blast
qed

lemma executeLocks_ordered:
  assumes "\<And>f a p. eo = Some f \<Longrightarrow> p \<in> set (f a) \<Longrightarrow> clr.ordered (Suc (Suc 0)) p" and "n \<le> 1"
  shows "\<forall>p\<in>set (executeLocks c eo). clr.ordered n p"
  using executeLocks_cases [of c eo]
proof cases
  case plain
  with assms(2) show ?thesis by simp
next
  case (fan f)
  with assms show ?thesis by auto
qed

lemma executeLocks_None_ordered: "n \<le> 1 \<Longrightarrow> \<forall>p\<in>set (executeLocks c None). clr.ordered n p"
  by (rule executeLocks_ordered) auto

lemma subscribeFuncLocks_ordered: "n \<le> 1 \<Longrightarrow> \<forall>p\<in>set (subscribeFuncLocks c topic). clr.ordered n p"
  unfolding subscribeFuncLocks_def
  by (rule executeLocks_ordered) (auto simp: subscribeOnlyOnceLocks_def split: if_splits)

lemma UnsubscribeLocks_ordered: "\<forall>p\<in>set (UnsubscribeLocks c ok). clr.ordered 0 p"
  using executeLocks_ordered [of "Some removeSubsFromStateLocks" 0 c]
  by (auto simp: UnsubscribeLocks_def removeSubsFromStateLocks_def)

lemma resumeSubscriptionsLocks_ordered: "\<forall>p\<in>set (resumeSubscriptionsLocks c). clr.ordered 0 p"
  using subscribeFuncLocks_ordered [of 1 c] by (auto simp: resumeSubscriptionsLocks_def)

lemma attemptConnectionsLocks_ordered: "\<forall>p\<in>set (attemptConnectionsLocks c addrs). clr.ordered 0 p"
  using resumeSubscriptionsLocks_ordered [of c] by (auto simp: attempt_lock_defs)

lemma removeStoredSubsCalledLocks_ordered:
  "\<forall>p\<in>set (removeStoredSubsCalledLocks c cc). clr.ordered 0 p"
  by (auto simp: removeStoredSubsCalledLocks_def split: if_splits)

lemmas locks_ordered = executeLocks_None_ordered [THEN bspec, of 0]
  subscribeFuncLocks_ordered [THEN bspec, of 0] UnsubscribeLocks_ordered [THEN bspec]
  attemptConnectionsLocks_ordered [THEN bspec] removeStoredSubsCalledLocks_ordered [THEN bspec]

interpretation clo: lock_order lockRank 2 lockProgram "\<lambda>op. \<not> reentrant op"
proof
  fix op :: "'a call"
  assume "\<not> reentrant op"
  then show "\<forall>p\<in>set (lockProgram op). clr.ordered 0 p"
    by (cases op) (auto intro: locks_ordered simp: SubscribeLocks_def SubscribeMultipleLocks_def
      subscribeMultipleFuncLocks_def stopLocks_def infoResponseLocks_def multiClientInfoLocks_def
      singleClientInfoLocks_def hasConnection_def split: if_splits)
qed

section \<open>Telemetry and a writer\<close>

lemma run_inside:
  "lockStep\<^sup>*\<^sup>* (s, t) (s', t') \<Longrightarrow>
    lockStep\<^sup>*\<^sup>* (s, Join (us @ t # vs) # k) (s', Join (us @ t' # vs) # k)"
  by (induction rule: rtranclp_induct2) (auto intro: lockStep.inside rtranclp.rtrancl_into_rtrancl)

definition readClientMu :: "lockName locks" where
  "readClientMu = noLocks\<lparr>readers := (readers noLocks)(ClientMu := 1)\<rparr>"

definition awaitClientMu :: "lockName locks" where
  "awaitClientMu = readClientMu\<lparr>writerWaits := (writerWaits noLocks)(ClientMu := True)\<rparr>"

text \<open>An empty section under a free read lock, and the start of one under \<^verbatim>\<open>clientMu\<close>.\<close>

lemma section_run: "lockStep\<^sup>*\<^sup>* (noLocks, Do (WithRLock l []) # k) (noLocks, k)"
proof -
  let ?s = "noLocks\<lparr>readers := (readers noLocks)(l := Suc (readers noLocks l))\<rparr>"
  have "lockStep (noLocks, Do (WithRLock l []) # k) (?s, begin_prog [] @ RUnlock l # k)"
    by (rule lockStep.rlock) (simp_all add: noLocks_def)
  moreover have "lockStep (?s, RUnlock l # k) (?s\<lparr>readers := (readers ?s)(l := readers ?s l - 1)\<rparr>, k)"
    by (rule lockStep.runlock) simp
  ultimately show ?thesis by simp
qed

lemma read_run:
  "lockStep\<^sup>*\<^sup>* (noLocks, Do (WithRLock ClientMu b) # k) (readClientMu, begin_prog b @ RUnlock ClientMu # k)"
  using lockStep.rlock [of noLocks ClientMu b k] by (auto simp: readClientMu_def noLocks_def)

text \<open>The first half of a telemetry call with a connection: it has \<^verbatim>\<open>clientMu\<close> and asks again.\<close>

lemma info_halfway:
  assumes "hasConnection c"
  obtains b k where "lockStep\<^sup>*\<^sup>* (noLocks, begin_prog (lockProgram (CallInfo c)))
    (readClientMu, Do (WithRLock ClientMu b) # k)"
proof -
  have exec: "\<exists>b. executeLocks c eo = [WithRLock ClientMu b]" for eo
    by (rule executeLocks_cases [of c eo]) auto
  from assms obtain b where
    "lockProgram (CallInfo c) = [WithRLock SubMu [], WithRLock ClientMu [WithRLock ClientMu b]]"
    using exec [of None] exec [of "Some (\<lambda>a. [WithLock (StateMu a) []])"]
    by (auto simp: infoResponseLocks_def multiClientInfoLocks_def singleClientInfoLocks_def
      hasConnection_def split: if_splits)
  then have "lockStep\<^sup>*\<^sup>* (noLocks, begin_prog (lockProgram (CallInfo c)))
      (readClientMu, Do (WithRLock ClientMu b) # [RUnlock ClientMu])"
    using rtranclp_trans [OF section_run [of SubMu] read_run [of "[WithRLock ClientMu b]" "[]"]] by simp
  then show ?thesis by (rule that)
qed

text \<open>A stop or an update of the addresses comes to \<^verbatim>\<open>clientMu.Lock\<close>.\<close>

lemma executeLocks_None: "executeLocks c None = [WithRLock ClientMu []]"
  unfolding executeLocks_def by simp

lemma attemptConnectionsLocks_Cons: "\<exists>q. attemptConnectionsLocks c addrs = WithLock ClientMu [] # q"
  by (simp add: attempt_lock_defs)

lemma writer_asks:
  assumes "w = CallStop d True \<or> (\<exists>addrs us. w = CallWatch ((d, addrs) # us))"
  obtains b k where "lockStep\<^sup>*\<^sup>* (noLocks, begin_prog (lockProgram w)) (noLocks, Do (WithLock ClientMu b) # k)"
  using assms
proof
  assume "w = CallStop d True"
  then show ?thesis
    using that section_run [of ClientMu "[Do (WithLock ClientMu [])]"]
    by (simp add: stopLocks_def executeLocks_None)
next
  assume "\<exists>addrs us. w = CallWatch ((d, addrs) # us)"
  then obtain addrs us where w: "w = CallWatch ((d, addrs) # us)" by blast
  obtain q where "attemptConnectionsLocks d addrs = WithLock ClientMu [] # q"
    using attemptConnectionsLocks_Cons by blast
  with w have "begin_prog (lockProgram w) = Do (WithLock ClientMu []) # begin_prog q @
      begin_prog (concat (map (\<lambda>(c, addrs). attemptConnectionsLocks c addrs) us))" by simp
  then show ?thesis using that by (metis rtranclp.rtrancl_refl)
qed

lemma announce_run:
  "lockStep\<^sup>*\<^sup>* (readClientMu, Do (WithLock ClientMu b) # k) (awaitClientMu, Pending ClientMu b # k)"
  using lockStep.announce [of readClientMu ClientMu b k]
  by (auto simp: readClientMu_def awaitClientMu_def noLocks_def)

lemma awaited_stuck:
  "\<not> canStep awaitClientMu (Do (WithRLock ClientMu b) # k)"
  "\<not> canStep awaitClientMu (Pending ClientMu b # k)"
  by (simp_all add: awaitClientMu_def readClientMu_def noLocks_def)

section \<open>Properties\<close>

text \<open>
  C4: Publishes, subscribes, unsubscribes, connection checks, starts, stops, lost connections,
  address updates, and telemetry of a client without connections, in any number and at once,
  never block each other for good: no run takes more steps than the weight of the calls, while
  a call is unfinished some goroutine can go on, and every run can be continued until all have
  returned and all locks are free.
\<close>

theorem calls_complete:
  assumes "\<forall>op\<in>set ops. \<not> reentrant op"
    and "(lockStep ^^ n) (noLocks, together lockProgram ops) (s, t)"
  shows "n \<le> weight (together lockProgram ops) \<and> (t \<noteq> [] \<longrightarrow> canStep s t) \<and>
    lockStep\<^sup>*\<^sup>* (s, t) (noLocks, [])"
  using clo.orderly_run [OF assms] by blast

theorem calls_complete_witness:
  "lockStep\<^sup>*\<^sup>* (noLocks, together lockProgram [CallPublish refPool, CallSubscribe refPool ''t'' True,
      CallWatch [(refMulti, [])], CallStop refPool True]) (noLocks, [])"
  using calls_complete [of "[CallPublish refPool, CallSubscribe refPool ''t'' True,
      CallWatch [(refMulti, [])], CallStop refPool True]" 0 noLocks]
  by simp

text \<open>
  C5: Telemetry of a client that has connections can block the client for good: \<^verbatim>\<open>multiClientInfo\<close>
  and \<^verbatim>\<open>singleClientInfo\<close> hold \<^verbatim>\<open>clientMu\<close> for reading and call \<^verbatim>\<open>execute\<close>, which asks for it once
  more. When a stop or an address update asks for \<^verbatim>\<open>clientMu\<close> in between, neither goes on, no
  publish gets through any more, and none of these calls ever returns.
\<close>

theorem telemetry_deadlock:
  assumes "hasConnection c"
    and "w = CallStop d True \<or> (\<exists>addrs us. w = CallWatch ((d, addrs) # us))"
  shows "\<exists>s us. lockStep\<^sup>*\<^sup>* (noLocks, together lockProgram (CallInfo c # w # map CallPublish ps))
      (s, [Join us]) \<and> \<not> canStep s [Join us] \<and> length us = length ps + 2 \<and> [] \<notin> set us"
proof -
  let ?pub = "map (\<lambda>p. [Do (WithRLock ClientMu [])]) ps"
  obtain b k where info: "lockStep\<^sup>*\<^sup>* (noLocks, begin_prog (lockProgram (CallInfo c)))
      (readClientMu, Do (WithRLock ClientMu b) # k)"
    using assms(1) by (rule info_halfway)
  obtain b' k' where wr: "lockStep\<^sup>*\<^sup>* (noLocks, begin_prog (lockProgram w))
      (noLocks, Do (WithLock ClientMu b') # k')"
    using assms(2) by (rule writer_asks)
  let ?i = "Do (WithRLock ClientMu b) # k" and ?w = "Pending ClientMu b' # k'"
  have "together lockProgram (CallInfo c # w # map CallPublish ps) =
      [Join ([begin_prog (lockProgram (CallInfo c))] @ begin_prog (lockProgram w) # ?pub)]"
    by (simp add: together_def executeLocks_None comp_def)
  also have "lockStep\<^sup>*\<^sup>* (noLocks, \<dots>)
      (noLocks, [Join ([] @ begin_prog (lockProgram (CallInfo c)) # (Do (WithLock ClientMu b') # k') # ?pub)])"
    using run_inside [OF wr, of "[begin_prog (lockProgram (CallInfo c))]" ?pub "[]"] by simp
  also have "lockStep\<^sup>*\<^sup>* \<dots> (readClientMu, [Join ([?i] @ (Do (WithLock ClientMu b') # k') # ?pub)])"
    using run_inside [OF info, of "[]" "(Do (WithLock ClientMu b') # k') # ?pub" "[]"] by simp
  also have "lockStep\<^sup>*\<^sup>* \<dots> (awaitClientMu, [Join ([?i] @ ?w # ?pub)])"
    by (rule run_inside [OF announce_run])
  finally have run: "lockStep\<^sup>*\<^sup>* (noLocks, together lockProgram (CallInfo c # w # map CallPublish ps))
      (awaitClientMu, [Join (?i # ?w # ?pub)])" by simp
  have "\<not> canStep awaitClientMu [Join (?i # ?w # ?pub)]"
    using awaited_stuck by auto
  with run show ?thesis by (intro exI [of _ awaitClientMu] exI [of _ "?i # ?w # ?pub"]) auto
qed

theorem telemetry_deadlock_witness:
  "\<exists>s us. lockStep\<^sup>*\<^sup>* (noLocks, together lockProgram [CallInfo refPool, CallStop refPool True,
      CallPublish refPool]) (s, [Join us]) \<and> \<not> canStep s [Join us] \<and> length us = 3 \<and>
    [] \<notin> set us"
proof -
  have "hasConnection refPool" by code_simp
  from telemetry_deadlock [OF this, of "CallStop refPool True" refPool "[refPool]"]
  show ?thesis by (simp add: numeral_3_eq_3)
qed

end
