(* ===== verification/Counter.thy ===== *)
theory Counter
  imports Reference
begin

text \<open>
  Concurrent calls of \<^verbatim>\<open>atomicCounter.next\<close>, which publishes make under the read lock of the client.
  \<^verbatim>\<open>next\<close> loads the counter and then adds to it: two atomic steps, between which other calls may
  take theirs.
\<close>

section \<open>Calls in steps\<close>

datatype nextPC = NextStart | NextLoaded "64 word" | NextDone "64 word"

text \<open>The next step of call \<open>i\<close>; a call that has returned takes none.\<close>

definition nextStep :: "nat \<Rightarrow> 64 word \<times> nextPC list \<Rightarrow> 64 word \<times> nextPC list" where
  "nextStep i = (\<lambda>(value, calls).
     if i < length calls
     then (case calls ! i of
             NextStart \<Rightarrow> (value, calls[i := NextLoaded value])
           | NextLoaded current \<Rightarrow> (value + 1, calls[i := NextDone current])
           | NextDone current \<Rightarrow> (value, calls))
     else (value, calls))"

definition nextRun :: "nat list \<Rightarrow> 64 word \<times> nextPC list \<Rightarrow> 64 word \<times> nextPC list" where
  "nextRun schedule = fold nextStep schedule"

definition nextCalls :: "nat \<Rightarrow> 64 word \<Rightarrow> 64 word \<times> nextPC list" where
  "nextCalls n value = (value, replicate n NextStart)"

lemma nextRun_simps [simp]:
  "nextRun [] s = s" "nextRun (i # is) s = nextRun is (nextStep i s)"
  "nextRun (is @ js) s = nextRun js (nextRun is s)"
  by (simp_all add: nextRun_def)

text \<open>A call that is not interrupted is \<open>atomicCounter_next\<close>.\<close>

lemma next_uninterrupted:
  assumes "i < length calls" and "calls ! i = NextStart"
  shows "nextRun [i, i] (value, calls) =
    (snd (atomicCounter_next value), calls[i := NextDone (fst (atomicCounter_next value))])"
  using assms by (simp add: nextStep_def atomicCounter_next_def)

section \<open>What every interleaving keeps\<close>

abbreviation returned :: "nextPC list \<Rightarrow> nat" where
  "returned calls \<equiv> length (filter (\<lambda>c. \<exists>v. c = NextDone v) calls)"

definition counterInv :: "64 word \<Rightarrow> 64 word \<times> nextPC list \<Rightarrow> bool" where
  "counterInv v0 = (\<lambda>(value, calls). value = v0 + of_nat (returned calls) \<and>
     (\<forall>v. NextLoaded v \<in> set calls \<longrightarrow> (\<exists>k\<le>returned calls. v = v0 + of_nat k)) \<and>
     (\<forall>v. NextDone v \<in> set calls \<longrightarrow> (\<exists>k<returned calls. v = v0 + of_nat k)))"

lemma returned_update:
  assumes "i < length calls"
  shows "returned (calls[i := c]) + of_bool (\<exists>v. calls ! i = NextDone v) =
    returned calls + of_bool (\<exists>v. c = NextDone v)"
proof -
  have "calls = take i calls @ calls ! i # drop (Suc i) calls"
    using assms by (rule id_take_nth_drop)
  then have "returned calls = returned (take i calls @ calls ! i # drop (Suc i) calls)" by simp
  with assms show ?thesis by (simp add: upd_conv_take_nth_drop)
qed

lemma set_update_cases: "c \<in> set (xs[i := x]) \<Longrightarrow> c = x \<or> c \<in> set xs"
  using set_update_subset_insert [of xs i x] by blast

lemma counterInv_step:
  assumes "counterInv v0 s"
  shows "counterInv v0 (nextStep i s)"
proof -
  obtain v calls where s: "s = (v, calls)" by fastforce
  with assms have v: "v = v0 + of_nat (returned calls)"
    and loaded: "\<And>w. NextLoaded w \<in> set calls \<Longrightarrow> \<exists>k\<le>returned calls. w = v0 + of_nat k"
    and finished: "\<And>w. NextDone w \<in> set calls \<Longrightarrow> \<exists>k<returned calls. w = v0 + of_nat k"
    by (simp_all add: counterInv_def)
  show ?thesis
  proof (cases "i < length calls")
    case True
    show ?thesis
    proof (cases "calls ! i")
      case NextStart
      have "returned (calls[i := NextLoaded v]) = returned calls"
        using returned_update [OF True, of "NextLoaded v"] NextStart by simp
      with s v loaded finished True NextStart show ?thesis
        by (auto simp: nextStep_def counterInv_def dest!: set_update_cases)
    next
      case (NextLoaded w)
      have r: "returned (calls[i := NextDone w]) = Suc (returned calls)"
        using returned_update [OF True, of "NextDone w"] NextLoaded by simp
      have "\<exists>k\<le>returned calls. w = v0 + of_nat k" using loaded [of w] True NextLoaded nth_mem by fastforce
      then have "\<exists>k<Suc (returned calls). u = v0 + of_nat k" if "NextDone u \<in> set (calls[i := NextDone w])" for u
        using set_update_cases [OF that] finished [of u] less_Suc_eq_le less_Suc_eq nextPC.inject(2) by metis
      moreover have "\<exists>k\<le>Suc (returned calls). u = v0 + of_nat k"
        if "NextLoaded u \<in> set (calls[i := NextDone w])" for u
        using set_update_cases [OF that] loaded [of u] le_SucI by blast
      ultimately show ?thesis
        using s v True NextLoaded r by (simp add: nextStep_def counterInv_def)
    qed (use assms s True in \<open>simp add: nextStep_def\<close>)
  qed (use assms s in \<open>simp add: nextStep_def\<close>)
qed

lemma counterInv_run: "counterInv v0 s \<Longrightarrow> counterInv v0 (nextRun schedule s)"
  unfolding nextRun_def by (induction schedule arbitrary: s) (simp_all add: counterInv_step)

lemma counterInv_start: "counterInv v (nextCalls n v)"
  by (auto simp: counterInv_def nextCalls_def)

lemma nextStep_length: "length (snd (nextStep i s)) = length (snd s)"
  by (cases s) (simp add: nextStep_def split: nextPC.split)

lemma nextRun_length: "length (snd (nextRun schedule s)) = length (snd s)"
  by (induction schedule arbitrary: s) (simp_all add: nextStep_length)

lemma all_returned:
  assumes "\<forall>c\<in>set calls. \<exists>v. c = NextDone v"
  shows "returned calls = length calls"
  using assms by (simp add: filter_id_conv)

section \<open>All calls at once\<close>

lemma load_all:
  "m \<le> n \<Longrightarrow> nextRun [0..<m] (v, replicate n NextStart) =
     (v, replicate m (NextLoaded v) @ replicate (n - m) NextStart)"
proof (induction m)
  case (Suc m)
  then have "n - m = Suc (n - Suc m)" by simp
  with Suc show ?case
    by (simp add: nextStep_def nth_append list_update_append replicate_append_same)
qed simp

lemma add_all:
  "m \<le> n \<Longrightarrow> nextRun [0..<m] (v, replicate n (NextLoaded u)) =
     (v + of_nat m, replicate m (NextDone u) @ replicate (n - m) (NextLoaded u))"
proof (induction m)
  case (Suc m)
  then have "n - m = Suc (n - Suc m)" by simp
  with Suc show ?case
    by (simp add: nextStep_def nth_append list_update_append replicate_append_same add.commute add.left_commute)
qed simp

section \<open>Property\<close>

text \<open>
  C6: When \<open>n\<close> calls of \<^verbatim>\<open>next\<close> run at once, in any interleaving in which all return, the counter has
  grown by exactly \<open>n\<close>, and each call has got one of the \<open>n\<close> values from the first on. But the values
  need not differ: for every \<open>n\<close> there is an interleaving in which all calls get the same one, so
  that \<open>n\<close> concurrent publishes all go to one connection of the pool.
\<close>

theorem concurrent_next:
  "(\<forall>schedule value calls. nextRun schedule (nextCalls n v) = (value, calls) \<longrightarrow>
      (\<forall>c\<in>set calls. \<exists>w. c = NextDone w) \<longrightarrow>
      length calls = n \<and> value = v + of_nat n \<and> (\<forall>c\<in>set calls. \<exists>k<n. c = NextDone (v + of_nat k))) \<and>
   nextRun ([0..<n] @ [0..<n]) (nextCalls n v) = (v + of_nat n, replicate n (NextDone v))"
proof (intro conjI allI impI)
  fix schedule "value" calls
  assume run: "nextRun schedule (nextCalls n v) = (value, calls)"
    and returns: "\<forall>c\<in>set calls. \<exists>w. c = NextDone w"
  show len: "length calls = n"
    using nextRun_length [of schedule "nextCalls n v"] run by (simp add: nextCalls_def)
  have inv: "counterInv v (value, calls)"
    using counterInv_run [OF counterInv_start [of v n], of schedule] run by simp
  with all_returned [OF returns] len show "value = v + of_nat n" by (simp add: counterInv_def)
  show "\<forall>c\<in>set calls. \<exists>k<n. c = NextDone (v + of_nat k)"
    using inv all_returned [OF returns] len returns unfolding counterInv_def by fastforce
next
  show "nextRun ([0..<n] @ [0..<n]) (nextCalls n v) = (v + of_nat n, replicate n (NextDone v))"
    by (simp add: nextCalls_def load_all add_all)
qed

theorem concurrent_next_witness:
  "nextRun [0, 1, 0, 1, 2, 2] (nextCalls 3 7) = (10, [NextDone 7, NextDone 7, NextDone 9]) \<and>
   list_all (\<lambda>c. \<exists>k<3. c = NextDone (7 + of_nat k)) [NextDone 7, NextDone 7, NextDone 9]"
proof -
  have "nextRun [0, 1, 0, 1, 2, 2] (nextCalls 3 7) = (10, [NextDone 7, NextDone 7, NextDone 9])"
    by code_simp
  moreover have "\<forall>c\<in>set [NextDone 7, NextDone 7, NextDone 9]. \<exists>w. c = NextDone w" by simp
  ultimately show ?thesis unfolding list_all_iff using concurrent_next [of 3 7] by blast
qed

end
