(* ===== verification/Attributes.thy ===== *)
theory Attributes
  imports Messages
begin

text \<open>
  What the instrumented parts share of OpenTelemetry: attributes, the instruments they create
  through a \<^verbatim>\<open>metric.Meter\<close>, the attribute keys of \<^verbatim>\<open>otelcourier/semconv.go\<close>. The meter is third-party:
  its answers are arguments.
\<close>

datatype attrValue = AString string | ABool bool | AInt int | AStringSlice "string list"

type_synonym attrs = "(string \<times> attrValue) list"

text \<open>
  The answers of the meter: the error of creating an instrument, by its name, and of
  registering a callback.
\<close>

record meterlib =
  createInstrument :: "string \<Rightarrow> err"
  registerCallback :: err

definition MQTTTopic :: string where "MQTTTopic = ''mqtt.topic''"
definition MQTTQoS :: string where "MQTTQoS = ''mqtt.qos''"
definition MQTTTopicWithQoS :: string where "MQTTTopicWithQoS = ''mqtt.topicwithqos''"
definition MQTTRetained :: string where "MQTTRetained = ''mqtt.retained''"
definition MQTTClientID :: string where "MQTTClientID = ''mqtt.clientid''"

text \<open>The keys of the package \<^verbatim>\<open>semconv\<close> of OpenTelemetry that are used.\<close>

definition ServiceNameKey :: string where "ServiceNameKey = ''service.name''"
definition CodeNamespaceKey :: string where "CodeNamespaceKey = ''code.namespace''"
definition CodeFunctionKey :: string where "CodeFunctionKey = ''code.function''"

end
