(* ===== verification/ConsulResolver.thy ===== *)
theory ConsulResolver
  imports Connect Attributes
begin

text \<open>
  The Consul resolver (\<^verbatim>\<open>consul/config.go\<close>, \<^verbatim>\<open>consul/resolver.go\<close>): its configuration, its state and
  the sections of code that run under its lock, one definition each. What Consul, the JSON
  parser and the meter answer are arguments. How the goroutines interleave these sections is
  in the theory \<^verbatim>\<open>ConsulRun\<close>.
\<close>

section \<open>Configuration\<close>

text \<open>Of the \<^verbatim>\<open>OTel\<close> pointer the resolver reads the service name, and the meter.\<close>

record consulConfig =
  ConsulAddress :: string
  HealthyOnly :: bool
  KVKey :: string
  WaitTime :: int
  cfgLogger :: "ref option"
  OTelService :: "string option"
  DebounceDuration :: int

definition DefaultConfig :: consulConfig where
  "DefaultConfig = \<lparr>ConsulAddress = ''localhost:8500'', HealthyOnly = True, KVKey = [],
     WaitTime = 5 * minute, cfgLogger = None, OTelService = None, DebounceDuration = 5 * second\<rparr>"

definition errKVKey :: goerror where "errKVKey = ErrorString ''consul: KV key is required''"
definition errConsulAddress :: goerror where "errConsulAddress = ErrorString ''consul: Consul address is required''"

definition Config_Validate :: "consulConfig \<Rightarrow> err" where
  "Config_Validate cfg =
     (if KVKey cfg = [] then Some errKVKey
      else if ConsulAddress cfg = [] then Some errConsulAddress
      else None)"

section \<open>State\<close>

text \<open>
  A timer that \<^verbatim>\<open>time.AfterFunc\<close> made is armed until it fires or is stopped. \<open>announced\<close> is the
  history of the lists that replaced \<^verbatim>\<open>lastAddresses\<close>; \<open>recorded\<close> are the measurements taken.
\<close>

datatype timer = Armed | Inactive

datatype metricEvent = CounterAdd string attrs | HistogramRecord string int attrs

record Resolver =
  serviceName :: string
  updateChan :: "TCPAddress list list"
  updateClosed :: bool
  doneClosed :: bool
  waitTime :: int
  healthyOnly :: bool
  lastIndex :: "64 word"
  kvKey :: string
  lastAddresses :: "TCPAddress list"
  debounceDuration :: int
  debounceTimer :: "timer option"
  pendingAddresses :: "TCPAddress list option"
  commonAttrs :: attrs
  lastInstanceCount :: int
  instruments :: bool
  recorded :: "metricEvent list"
  announced :: "TCPAddress list list"

section \<open>Metrics\<close>

definition attrServiceName :: string where "attrServiceName = ''service.name''"
definition attrConsulServiceName :: string where "attrConsulServiceName = ''consul.service.name''"
definition attrSuccess :: string where "attrSuccess = ''success''"
definition attrErrorType :: string where "attrErrorType = ''error.type''"
definition errorTypeKVRead :: string where "errorTypeKVRead = ''kv_read_error''"
definition errorTypeKVParse :: string where "errorTypeKVParse = ''kv_parse_error''"
definition attrAPIType :: string where "attrAPIType = ''api.type''"
definition apiTypeHealthService :: string where "apiTypeHealthService = ''health_service''"
definition apiTypeKV :: string where "apiTypeKV = ''kv''"
definition attrKVKey :: string where "attrKVKey = ''kv.key''"

text \<open>The first error of the meter ends \<^verbatim>\<open>initMetrics\<close>.\<close>

definition initMetrics :: "meterlib \<Rightarrow> Resolver \<Rightarrow> goerror + Resolver" where
  "initMetrics M r =
     (let steps =
        [(createInstrument M ''courier.consul.service_instances'', ''failed to create service_instances metric: ''),
         (registerCallback M, ''failed to register service_instances callback: ''),
         (createInstrument M ''courier.consul.api.requests'', ''failed to create api.requests metric: ''),
         (createInstrument M ''courier.consul.api.duration'', ''failed to create api.duration metric: ''),
         (createInstrument M ''courier.consul.kv.read_errors'', ''failed to create kv.read_errors metric: ''),
         (createInstrument M ''courier.consul.kv.value_changes'', ''failed to create kv.value_changes metric: ''),
         (createInstrument M ''courier.consul.resolver.address_updates'',
            ''failed to create resolver.address_updates metric: '')]
      in case List.find (\<lambda>(e, _). e \<noteq> None) steps of
           Some (Some e, msg) \<Rightarrow> Inl (WrapError msg e)
         | _ \<Rightarrow> Inr (r\<lparr>instruments := True\<rparr>))"

text \<open>The value the gauge \<^verbatim>\<open>courier.consul.service_instances\<close> is observed with, if any.\<close>

definition observeInstanceCount :: "Resolver \<Rightarrow> (int \<times> attrs) option" where
  "observeInstanceCount r =
     (if serviceName r = [] then None
      else Some (lastInstanceCount r, commonAttrs r @ [(attrConsulServiceName, AString (serviceName r))]))"

definition recordAPIRequest :: "string \<Rightarrow> bool \<Rightarrow> Resolver \<Rightarrow> Resolver" where
  "recordAPIRequest apiType success r =
     (if \<not> instruments r then r
      else r\<lparr>recorded := recorded r @ [CounterAdd ''courier.consul.api.requests''
        (commonAttrs r @ [(attrAPIType, AString apiType), (attrSuccess, ABool success)])]\<rparr>)"

definition recordAPIDuration :: "string \<Rightarrow> int \<Rightarrow> Resolver \<Rightarrow> Resolver" where
  "recordAPIDuration apiType duration r =
     (if \<not> instruments r then r
      else r\<lparr>recorded := recorded r @ [HistogramRecord ''courier.consul.api.duration'' duration
        (commonAttrs r @ [(attrAPIType, AString apiType)])]\<rparr>)"

definition recordKVReadError :: "string \<Rightarrow> string \<Rightarrow> Resolver \<Rightarrow> Resolver" where
  "recordKVReadError key errorType r =
     (if \<not> instruments r then r
      else r\<lparr>recorded := recorded r @ [CounterAdd ''courier.consul.kv.read_errors''
        (commonAttrs r @ [(attrKVKey, AString key), (attrErrorType, AString errorType)])]\<rparr>)"

definition recordKVValueChange :: "string \<Rightarrow> Resolver \<Rightarrow> Resolver" where
  "recordKVValueChange key r =
     (if \<not> instruments r then r
      else r\<lparr>recorded := recorded r @ [CounterAdd ''courier.consul.kv.value_changes''
        (commonAttrs r @ [(attrKVKey, AString key)])]\<rparr>)"

definition recordAddressUpdate :: "string \<Rightarrow> Resolver \<Rightarrow> Resolver" where
  "recordAddressUpdate svc r =
     (if \<not> instruments r then r
      else r\<lparr>recorded := recorded r @ [CounterAdd ''courier.consul.resolver.address_updates''
        (commonAttrs r @ [(attrConsulServiceName, AString svc)])]\<rparr>)"

lemmas record_defs = recordAPIRequest_def recordAPIDuration_def recordKVReadError_def
  recordKVValueChange_def recordAddressUpdate_def

section \<open>Construction\<close>

definition NewResolver ::
  "(string \<Rightarrow> err) \<Rightarrow> meterlib \<Rightarrow> consulConfig \<Rightarrow> goerror + Resolver" where
  "NewResolver newConsulClient M config =
     (case Config_Validate config of
        Some e \<Rightarrow> Inl e
      | None \<Rightarrow>
          (let debounce = (if DebounceDuration config = 0 then DebounceDuration DefaultConfig
                           else DebounceDuration config)
           in case newConsulClient (ConsulAddress config) of
                Some e \<Rightarrow> Inl (WrapError ''consul: failed to create client: '' e)
              | None \<Rightarrow>
                  (let r = \<lparr>serviceName = [], updateChan = [], updateClosed = False, doneClosed = False,
                         waitTime = WaitTime config, healthyOnly = HealthyOnly config, lastIndex = 0,
                         kvKey = KVKey config, lastAddresses = [], debounceDuration = debounce,
                         debounceTimer = None, pendingAddresses = None, commonAttrs = [],
                         lastInstanceCount = 0, instruments = False, recorded = [], announced = []\<rparr>
                   in case OTelService config of
                        None \<Rightarrow> Inr r
                      | Some svc \<Rightarrow> initMetrics M (r\<lparr>commonAttrs := [(attrServiceName, AString svc)]\<rparr>))))"

section \<open>Addresses\<close>

text \<open>What the code reads of a \<^verbatim>\<open>consulapi.ServiceEntry\<close>.\<close>

record ServiceEntry =
  svcAddress :: string
  nodeAddress :: string
  svcPort :: int

definition convertToTCPAddresses :: "ServiceEntry list \<Rightarrow> TCPAddress list" where
  "convertToTCPAddresses services =
     map (\<lambda>s. TCPAddress (if svcAddress s = [] then nodeAddress s else svcAddress s) (word_of_int (svcPort s)))
       services"

text \<open>\<^verbatim>\<open>m[addr]++\<close> over a slice, and \<^verbatim>\<open>m[addr]\<close>.\<close>

definition countOf :: "(TCPAddress, int) gomap \<Rightarrow> TCPAddress \<Rightarrow> int" where
  "countOf m a = (case map_of m a of Some n \<Rightarrow> n | None \<Rightarrow> 0)"

definition countAddresses :: "TCPAddress list \<Rightarrow> (TCPAddress, int) gomap" where
  "countAddresses as = fold (\<lambda>a m. AList.update a (countOf m a + 1) m) as []"

definition areAddressesEqual :: "TCPAddress list \<Rightarrow> TCPAddress list \<Rightarrow> bool" where
  "areAddressesEqual a b =
     (if length a \<noteq> length b then False
      else (let mapA = countAddresses a; mapB = countAddresses b
            in list_all (\<lambda>(addr, count). countOf mapB addr = count) mapA))"

section \<open>Service name\<close>

text \<open>
  The answer of a KV query: an error, or the pair's value, if there is a pair. The parser
  gives the field \<^verbatim>\<open>serviceName\<close>, empty when it is absent.
\<close>

definition quoted :: "string \<Rightarrow> string" where
  "quoted s = CHR 0x27 # s @ [CHR 0x27]"

definition setServiceName :: "string \<Rightarrow> Resolver \<Rightarrow> Resolver" where
  "setServiceName name r = r\<lparr>serviceName := name, lastIndex := 0\<rparr>"

definition updateServiceNameFromKV ::
  "(bytes \<Rightarrow> goerror + string) \<Rightarrow> int \<Rightarrow> goerror + bytes option \<Rightarrow> Resolver \<Rightarrow> err \<times> Resolver" where
  "updateServiceNameFromKV json dur answer r =
     (let r = recordAPIDuration apiTypeKV dur (recordAPIRequest apiTypeKV (\<not> isl answer) r)
      in case answer of
           Inl e \<Rightarrow> (Some (WrapError (''KV get error for key '' @ quoted (kvKey r) @ '': '') e), r)
         | Inr None \<Rightarrow> (Some (ErrorString (''KV key '' @ quoted (kvKey r) @ '' not found or is empty'')),
             recordKVReadError (kvKey r) errorTypeKVRead r)
         | Inr (Some value) \<Rightarrow>
             (if value = [] then
                (Some (ErrorString (''KV key '' @ quoted (kvKey r) @ '' not found or is empty'')),
                 recordKVReadError (kvKey r) errorTypeKVRead r)
              else case json value of
                Inl e \<Rightarrow> (Some (WrapError (''KV parse error for key '' @ quoted (kvKey r) @ '': '') e),
                  recordKVReadError (kvKey r) errorTypeKVParse r)
              | Inr name \<Rightarrow>
                  (None, if name \<noteq> [] \<and> name \<noteq> serviceName r
                         then recordKVValueChange (kvKey r) (setServiceName name r) else r)))"

section \<open>Discovery\<close>

text \<open>The first locked section of \<^verbatim>\<open>discover\<close>: the service and the index it asks for.\<close>

definition discoverQuery :: "Resolver \<Rightarrow> string \<times> 64 word" where
  "discoverQuery r = (serviceName r, lastIndex r)"

text \<open>
  From the answer to the second section: an error, nothing for an answer on another service
  than the current one, or the addresses to schedule.
\<close>

definition discoverAnswer ::
  "string \<Rightarrow> int \<Rightarrow> goerror + ServiceEntry list \<times> 64 word \<Rightarrow> Resolver \<Rightarrow>
   (err + TCPAddress list) \<times> Resolver" where
  "discoverAnswer svc dur answer r =
     (let r = recordAPIDuration apiTypeHealthService dur
                (recordAPIRequest apiTypeHealthService (\<not> isl answer) r)
      in case answer of
           Inl e \<Rightarrow> (Inl (Some (WrapError ''failed to query services: '' e)), r)
         | Inr (services, metaIndex) \<Rightarrow>
             (if svc \<noteq> serviceName r then (Inl None, r)
              else (let addresses = convertToTCPAddresses services
                    in (Inr addresses, r\<lparr>lastIndex := metaIndex, lastInstanceCount := int (length addresses)\<rparr>))))"

text \<open>
  The locked section of \<^verbatim>\<open>scheduleAddressUpdate\<close>, with whether it goes on to publish the
  addresses while it holds the lock.
\<close>

definition scheduleAddressUpdate :: "TCPAddress list \<Rightarrow> Resolver \<Rightarrow> bool \<times> Resolver" where
  "scheduleAddressUpdate addresses r =
     (let r = (if debounceTimer r \<noteq> None then r\<lparr>debounceTimer := None\<rparr> else r)
      in if areAddressesEqual (lastAddresses r) addresses
         then (False, r\<lparr>pendingAddresses := None\<rparr>)
         else if debounceDuration r \<le> 0
         then (True, r\<lparr>lastAddresses := addresses, announced := announced r @ [addresses]\<rparr>)
         else (False, r\<lparr>pendingAddresses := Some addresses, debounceTimer := Some Armed\<rparr>))"

text \<open>The locked section of the timer's function: what it goes on to publish.\<close>

definition takePending :: "Resolver \<Rightarrow> (string \<times> TCPAddress list) option \<times> Resolver" where
  "takePending r =
     (case pendingAddresses r of
        None \<Rightarrow> (None, r)
      | Some addrs \<Rightarrow> (Some (serviceName r, addrs),
          r\<lparr>lastAddresses := addrs, pendingAddresses := None, announced := announced r @ [addrs]\<rparr>))"

text \<open>
  The \<^verbatim>\<open>select\<close> of \<^verbatim>\<open>publishAddressUpdate\<close> at its send: the channel has room for one list; sending
  on a closed channel panics.
\<close>

datatype sendOutcome = SendPanics | SendBlocks | SendDelivers Resolver

definition sendUpdate :: "TCPAddress list \<Rightarrow> Resolver \<Rightarrow> sendOutcome" where
  "sendUpdate addrs r =
     (if updateClosed r then SendPanics
      else if length (updateChan r) < 1 then SendDelivers (r\<lparr>updateChan := updateChan r @ [addrs]\<rparr>)
      else SendBlocks)"

section \<open>Watching the KV key\<close>

text \<open>
  The body of \<^verbatim>\<open>watchKV\<close> after its query: the next index, and whether the loop backs off, goes on,
  or discovers the service that is now current. \<^verbatim>\<open>meta\<close> may be \<^verbatim>\<open>nil\<close>.
\<close>

datatype kvNext = KvBackOff | KvContinue | KvDiscovers

definition watchKVAnswer ::
  "(bytes \<Rightarrow> goerror + string) \<Rightarrow> int \<Rightarrow> 64 word \<Rightarrow>
   goerror + bytes option \<times> (64 word) option \<Rightarrow> Resolver \<Rightarrow> kvNext \<times> 64 word \<times> Resolver" where
  "watchKVAnswer json dur lastKVIndex answer r =
     (let r = recordAPIDuration apiTypeKV dur (recordAPIRequest apiTypeKV (\<not> isl answer) r)
      in case answer of
           Inl e \<Rightarrow> (KvBackOff, lastKVIndex, recordKVReadError (kvKey r) errorTypeKVRead r)
         | Inr (pair, meta) \<Rightarrow>
             (let idx = (case meta of Some i \<Rightarrow> i | None \<Rightarrow> lastKVIndex)
              in case pair of
                   None \<Rightarrow> (KvContinue, idx, r)
                 | Some value \<Rightarrow>
                     (if value = [] then (KvContinue, idx, r)
                      else case json value of
                        Inl e \<Rightarrow> (KvContinue, idx, recordKVReadError (kvKey r) errorTypeKVParse r)
                      | Inr name \<Rightarrow>
                          (if name \<noteq> [] \<and> name \<noteq> serviceName r
                           then (KvDiscovers, idx, recordKVValueChange (kvKey r) (setServiceName name r))
                           else (KvContinue, idx, r)))))"

section \<open>Equality of address lists\<close>

lemma countAddresses_fold:
  assumes "distinct_keys m" and "\<forall>a n. map_of m a = Some n \<longrightarrow> 0 < n"
    and "m' = fold (\<lambda>a m. AList.update a (countOf m a + 1) m) as m"
  shows "distinct_keys m' \<and> (\<forall>a n. map_of m' a = Some n \<longrightarrow> 0 < n) \<and>
     (\<forall>a. countOf m' a = countOf m a + int (count (mset as) a))"
  using assms
proof (induction as arbitrary: m)
  case Nil
  then show ?case by simp
next
  case (Cons x as)
  let ?m = "AList.update x (countOf m x + 1) m"
  have wf: "distinct_keys ?m" "\<forall>a n. map_of ?m a = Some n \<longrightarrow> 0 < n"
    using Cons.prems(1,2)
    by (auto simp: distinct_update update_conv' countOf_def intro: less_imp_le split: option.split if_splits)
  have "countOf ?m a = countOf m a + (if a = x then 1 else 0)" for a
    by (simp add: countOf_def update_conv')
  with Cons.IH [OF wf] Cons.prems(3) show ?case by (auto simp: countOf_def)
qed

lemma countOf_countAddresses: "countOf (countAddresses as) a = int (count (mset as) a)"
  using countAddresses_fold [of "[]" "countAddresses as" as] by (simp add: countAddresses_def countOf_def)

lemma countAddresses_entries:
  "(a, n) \<in> set (countAddresses as) \<longleftrightarrow> a \<in> set as \<and> n = int (count (mset as) a)"
proof -
  have wf: "distinct_keys (countAddresses as)" and pos: "\<forall>a n. map_of (countAddresses as) a = Some n \<longrightarrow> 0 < n"
    using countAddresses_fold [of "[]" "countAddresses as" as] by (simp_all add: countAddresses_def)
  have "(a, n) \<in> set (countAddresses as) \<longleftrightarrow> map_of (countAddresses as) a = Some n"
    using wf by simp
  also have "\<dots> \<longleftrightarrow> a \<in> set as \<and> n = int (count (mset as) a)"
  proof (cases "map_of (countAddresses as) a")
    case None
    then show ?thesis
      using countOf_countAddresses [of as a] by (auto simp: countOf_def)
  next
    case (Some k)
    then have "0 < k" using pos by blast
    moreover have "k = int (count (mset as) a)"
      using Some countOf_countAddresses [of as a] by (simp add: countOf_def)
    ultimately have "0 < count (mset as) a" by simp
    then have "a \<in># mset as" by (rule count_greater_zero_iff [THEN iffD1])
    then show ?thesis using Some \<open>k = int (count (mset as) a)\<close> by auto
  qed
  finally show ?thesis .
qed

lemma areAddressesEqual_iff: "areAddressesEqual a b \<longleftrightarrow> mset a = mset b"
proof
  assume "areAddressesEqual a b"
  then have len: "length a = length b"
    and eq: "\<forall>(x, n)\<in>set (countAddresses a). int (count (mset b) x) = n"
    by (auto simp: areAddressesEqual_def Let_def list_all_iff countOf_countAddresses split: if_splits)
  have "mset a \<subseteq># mset b"
  proof (rule mset_subset_eqI)
    fix x show "count (mset a) x \<le> count (mset b) x"
    proof (cases "x \<in> set a")
      case True
      then show ?thesis using eq countAddresses_entries [of x "int (count (mset a) x)" a] by auto
    next
      case False
      then have "count (mset a) x = 0" by simp
      then show ?thesis by (simp only: le0)
    qed
  qed
  then show "mset a = mset b"
    using len by (metis size_mset subset_mset.less_le mset_subset_size less_irrefl)
next
  assume "mset a = mset b"
  then show "areAddressesEqual a b"
    by (auto simp: areAddressesEqual_def Let_def list_all_iff countOf_countAddresses countAddresses_entries
        dest: mset_eq_length)
qed

end
