(* ===== verification/ConsulRun.thy ===== *)
theory ConsulRun
  imports ConsulResolver
begin

text \<open>
  The goroutines of the Consul resolver: \<^verbatim>\<open>Start\<close> itself, the two watchers it starts, the
  functions of fired timers, and \<^verbatim>\<open>Stop\<close>. Every section under the lock, every answer of Consul,
  every \<^verbatim>\<open>select\<close> branch is one action; any goroutine may take the next one. Runs of these
  actions are the behaviours of the resolver; two invariants of all runs and two runs that end
  badly are shown.
\<close>

section \<open>Goroutines\<close>

text \<open>Where a call of \<^verbatim>\<open>discover\<close> is; \<open>DPublish\<close> holds the lock.\<close>

datatype discoverPC =
    DBegin
  | DQueried string "64 word"
  | DSchedule string "TCPAddress list"
  | DPublish "TCPAddress list"
  | DEnd err

datatype mainPC = MainKV | MainDisc discoverPC | MainWait | MainExit
datatype svcPC = SvcLoop | SvcDisc discoverPC | SvcBackoff | SvcExit
datatype kvPC = KvLoop "64 word" | KvQueried "64 word" | KvDisc "64 word" discoverPC
  | KvBackoff "64 word" | KvExit
datatype callbackPC = CbStarted | CbChecked | CbPublish "TCPAddress list"

record system =
  res :: Resolver
  locked :: bool
  mainG :: mainPC
  svcG :: svcPC
  kvG :: kvPC
  callbacks :: "callbackPC list"
  stopping :: bool
  panicked :: bool

definition started :: "Resolver \<Rightarrow> system" where
  "started r = \<lparr>res = r, locked = False, mainG = MainKV, svcG = SvcExit, kvG = KvExit,
     callbacks = [], stopping = False, panicked = False\<rparr>"

datatype who = Main | Svc | Kv

fun discovering :: "who \<Rightarrow> system \<Rightarrow> discoverPC option" where
  "discovering Main s = (case mainG s of MainDisc d \<Rightarrow> Some d | _ \<Rightarrow> None)"
| "discovering Svc s = (case svcG s of SvcDisc d \<Rightarrow> Some d | _ \<Rightarrow> None)"
| "discovering Kv s = (case kvG s of KvDisc i d \<Rightarrow> Some d | _ \<Rightarrow> None)"

fun setDiscover :: "who \<Rightarrow> discoverPC \<Rightarrow> system \<Rightarrow> system" where
  "setDiscover Main d s = s\<lparr>mainG := MainDisc d\<rparr>"
| "setDiscover Svc d s = s\<lparr>svcG := SvcDisc d\<rparr>"
| "setDiscover Kv d s = s\<lparr>kvG := (case kvG s of KvDisc i _ \<Rightarrow> KvDisc i d | g \<Rightarrow> g)\<rparr>"

section \<open>Actions\<close>

datatype discoverAction =
    Query
  | ServiceAnswer int "goerror + ServiceEntry list \<times> 64 word"
  | Schedule
  | SendHeld
  | SkipSend

fun performDiscover :: "discoverAction \<Rightarrow> discoverPC \<Rightarrow> bool \<times> Resolver \<Rightarrow>
    (discoverPC \<times> bool \<times> Resolver) option" where
  "performDiscover Query DBegin (lock, r) =
     (if lock then None else let (svc, idx) = discoverQuery r in Some (DQueried svc idx, lock, r))"
| "performDiscover (ServiceAnswer dur answer) (DQueried svc idx) (lock, r) =
     (if lock \<and> \<not> isl answer then None
      else case discoverAnswer svc dur answer r of
             (Inl e, r') \<Rightarrow> Some (DEnd e, lock, r')
           | (Inr addrs, r') \<Rightarrow> Some (DSchedule svc addrs, lock, r'))"
| "performDiscover Schedule (DSchedule svc addrs) (lock, r) =
     (if lock then None
      else case scheduleAddressUpdate addrs r of
             (True, r') \<Rightarrow> Some (DPublish addrs, True, recordAddressUpdate svc r')
           | (False, r') \<Rightarrow> Some (DEnd None, False, r'))"
| "performDiscover SendHeld (DPublish addrs) (lock, r) =
     (case sendUpdate addrs r of SendDelivers r' \<Rightarrow> Some (DEnd None, False, r') | _ \<Rightarrow> None)"
| "performDiscover SkipSend (DPublish addrs) (lock, r) =
     (if doneClosed r then Some (DEnd None, False, r) else None)"
| "performDiscover _ _ _ = None"

text \<open>A send that finds the update channel closed.\<close>

fun sendPanics :: "discoverAction \<Rightarrow> discoverPC \<Rightarrow> Resolver \<Rightarrow> bool" where
  "sendPanics SendHeld (DPublish addrs) r = (sendUpdate addrs r = SendPanics)"
| "sendPanics _ _ _ = False"

text \<open>The branches of \<^verbatim>\<open>watchKV\<close> that read the value and take the lock.\<close>

fun kvLocks :: "(bytes \<Rightarrow> goerror + string) \<Rightarrow> goerror + bytes option \<times> (64 word) option \<Rightarrow> bool" where
  "kvLocks json (Inr (Some value, meta)) = (value \<noteq> [] \<and> \<not> isl (json value))"
| "kvLocks json _ = False"

datatype action =
    InitialKV "bytes \<Rightarrow> goerror + string" int "goerror + bytes option"
  | Disc who discoverAction
  | Spawn
  | CloseUpdates
  | SvcTurn
  | SvcFinished
  | SvcWake
  | KvTurn
  | KvAnswer "bytes \<Rightarrow> goerror + string" int "goerror + bytes option \<times> (64 word) option"
  | KvFinished
  | KvWake
  | TimerFires
  | CbCheck nat
  | CbTake nat
  | CbSend nat
  | CbSkip nat
  | StopCalled
  | StopTimer
  | Receive

definition dropCallback :: "nat \<Rightarrow> system \<Rightarrow> system" where
  "dropCallback k s = s\<lparr>callbacks := take k (callbacks s) @ drop (Suc k) (callbacks s)\<rparr>"

definition callbackAt :: "nat \<Rightarrow> system \<Rightarrow> callbackPC option" where
  "callbackAt k s = (if k < length (callbacks s) then Some (callbacks s ! k) else None)"

fun perform :: "action \<Rightarrow> system \<Rightarrow> system option" where
  "perform (InitialKV json dur answer) s =
     (if mainG s = MainKV \<and> \<not> locked s
      then Some (s\<lparr>res := snd (updateServiceNameFromKV json dur answer (res s)), mainG := MainDisc DBegin\<rparr>)
      else None)"
| "perform (Disc w a) s =
     (case discovering w s of
        None \<Rightarrow> None
      | Some d \<Rightarrow>
          (if sendPanics a d (res s) then Some (s\<lparr>panicked := True\<rparr>)
           else case performDiscover a d (locked s, res s) of
             None \<Rightarrow> None
           | Some (d', lock, r) \<Rightarrow> Some (setDiscover w d' (s\<lparr>locked := lock, res := r\<rparr>))))"
| "perform Spawn s =
     (case mainG s of
        MainDisc (DEnd e) \<Rightarrow> Some (s\<lparr>mainG := MainWait, svcG := SvcLoop,
          kvG := (if kvKey (res s) \<noteq> [] then KvLoop 0 else KvExit)\<rparr>)
      | _ \<Rightarrow> None)"
| "perform CloseUpdates s =
     (if mainG s = MainWait \<and> svcG s = SvcExit \<and> kvG s = KvExit
      then Some (s\<lparr>mainG := MainExit, res := (res s)\<lparr>updateClosed := True\<rparr>\<rparr>) else None)"
| "perform SvcTurn s =
     (if svcG s = SvcLoop
      then Some (s\<lparr>svcG := (if doneClosed (res s) then SvcExit else SvcDisc DBegin)\<rparr>) else None)"
| "perform SvcFinished s =
     (case svcG s of
        SvcDisc (DEnd e) \<Rightarrow> Some (s\<lparr>svcG := (if e = None then SvcLoop else SvcBackoff)\<rparr>)
      | _ \<Rightarrow> None)"
| "perform SvcWake s =
     (if svcG s = SvcBackoff
      then Some (s\<lparr>svcG := (if doneClosed (res s) then SvcExit else SvcLoop)\<rparr>) else None)"
| "perform KvTurn s =
     (case kvG s of
        KvLoop i \<Rightarrow> Some (s\<lparr>kvG := (if doneClosed (res s) then KvExit else KvQueried i)\<rparr>)
      | _ \<Rightarrow> None)"
| "perform (KvAnswer json dur answer) s =
     (case kvG s of
        KvQueried i \<Rightarrow>
          (if locked s \<and> kvLocks json answer then None
           else case watchKVAnswer json dur i answer (res s) of
                  (KvBackOff, i', r) \<Rightarrow> Some (s\<lparr>res := r, kvG := KvBackoff i'\<rparr>)
                | (KvContinue, i', r) \<Rightarrow> Some (s\<lparr>res := r, kvG := KvLoop i'\<rparr>)
                | (KvDiscovers, i', r) \<Rightarrow> Some (s\<lparr>res := r, kvG := KvDisc i' DBegin\<rparr>))
      | _ \<Rightarrow> None)"
| "perform KvFinished s =
     (case kvG s of KvDisc i (DEnd e) \<Rightarrow> Some (s\<lparr>kvG := KvLoop i\<rparr>) | _ \<Rightarrow> None)"
| "perform KvWake s =
     (case kvG s of
        KvBackoff i \<Rightarrow> Some (s\<lparr>kvG := (if doneClosed (res s) then KvExit else KvLoop i)\<rparr>)
      | _ \<Rightarrow> None)"
| "perform TimerFires s =
     (if debounceTimer (res s) = Some Armed
      then Some (s\<lparr>res := (res s)\<lparr>debounceTimer := Some Inactive\<rparr>, callbacks := callbacks s @ [CbStarted]\<rparr>)
      else None)"
| "perform (CbCheck k) s =
     (if callbackAt k s = Some CbStarted
      then Some (if doneClosed (res s) then dropCallback k s
                 else s\<lparr>callbacks := (callbacks s)[k := CbChecked]\<rparr>)
      else None)"
| "perform (CbTake k) s =
     (if callbackAt k s = Some CbChecked \<and> \<not> locked s
      then (case takePending (res s) of
              (None, r) \<Rightarrow> Some (dropCallback k s)
            | (Some (svc, addrs), r) \<Rightarrow>
                Some (s\<lparr>res := recordAddressUpdate svc r, callbacks := (callbacks s)[k := CbPublish addrs]\<rparr>))
      else None)"
| "perform (CbSend k) s =
     (case callbackAt k s of
        Some (CbPublish addrs) \<Rightarrow>
          (case sendUpdate addrs (res s) of
             SendPanics \<Rightarrow> Some (s\<lparr>panicked := True\<rparr>)
           | SendBlocks \<Rightarrow> None
           | SendDelivers r \<Rightarrow> Some (dropCallback k (s\<lparr>res := r\<rparr>)))
      | _ \<Rightarrow> None)"
| "perform (CbSkip k) s =
     (case callbackAt k s of
        Some (CbPublish addrs) \<Rightarrow> if doneClosed (res s) then Some (dropCallback k s) else None
      | _ \<Rightarrow> None)"
| "perform StopCalled s =
     (if doneClosed (res s) then Some (s\<lparr>panicked := True\<rparr>)
      else Some (s\<lparr>res := (res s)\<lparr>doneClosed := True\<rparr>, stopping := True\<rparr>))"
| "perform StopTimer s =
     (if stopping s \<and> \<not> locked s
      then Some (s\<lparr>stopping := False,
        res := (res s)\<lparr>debounceTimer := map_option (\<lambda>_. Inactive) (debounceTimer (res s))\<rparr>\<rparr>)
      else None)"
| "perform Receive s =
     (case updateChan (res s) of
        [] \<Rightarrow> None
      | a # rest \<Rightarrow> Some (s\<lparr>res := (res s)\<lparr>updateChan := rest\<rparr>\<rparr>))"

fun performs :: "action list \<Rightarrow> system \<Rightarrow> system option" where
  "performs [] s = Some s"
| "performs (a # as) s = (case perform a s of None \<Rightarrow> None | Some t \<Rightarrow> performs as t)"

text \<open>A process that panicked takes no further step.\<close>

inductive resolverStep :: "system \<Rightarrow> system \<Rightarrow> bool" where
  step: "\<not> panicked s \<Longrightarrow> perform a s = Some t \<Longrightarrow> resolverStep s t"

inductive_cases resolverStepE: "resolverStep s t"

section \<open>Reading the goroutines back\<close>

lemma callbackAt_Some:
  "callbackAt k s = Some c \<longleftrightarrow> k < length (callbacks s) \<and> callbacks s ! k = c"
  by (auto simp: callbackAt_def)

lemma callbacks_split:
  assumes "callbackAt k s = Some c"
  shows "callbacks s = take k (callbacks s) @ c # drop (Suc k) (callbacks s)"
  using assms by (auto simp: callbackAt_Some id_take_nth_drop)

lemma discovering_setDiscover [simp]:
  "discovering w s \<noteq> None \<Longrightarrow> discovering w (setDiscover w d s) = Some d"
  "w' \<noteq> w \<Longrightarrow> discovering w' (setDiscover w d s) = discovering w' s"
  by (cases w; cases w'; auto split: mainPC.splits svcPC.splits kvPC.splits)+

lemma discovering_fields [simp]:
  "discovering w (s\<lparr>res := r\<rparr>) = discovering w s" "discovering w (s\<lparr>locked := b\<rparr>) = discovering w s"
  "discovering w (s\<lparr>callbacks := cs\<rparr>) = discovering w s"
  "discovering w (s\<lparr>stopping := b\<rparr>) = discovering w s"
  "discovering w (s\<lparr>panicked := b\<rparr>) = discovering w s"
  "discovering w (dropCallback k s) = discovering w s"
  by (cases w; simp add: dropCallback_def)+

lemma locked_fields [simp]:
  "locked (dropCallback k s) = locked s" "locked (setDiscover w d s) = locked s"
  "res (setDiscover w d s) = res s"
  by (simp add: dropCallback_def) (cases w; simp)+

lemma panicked_setDiscover [simp]: "panicked (setDiscover w d s) = panicked s"
  by (cases w) simp_all

section \<open>The invariant of the resolver's state\<close>

definition resInv :: "Resolver \<Rightarrow> bool" where
  "resInv r \<longleftrightarrow> length (updateChan r) \<le> 1 \<and>
     (\<forall>p. pendingAddresses r = Some p \<longrightarrow> mset p \<noteq> mset (lastAddresses r) \<and> 0 < debounceDuration r) \<and>
     lastAddresses r = last ([] # announced r) \<and> distinct_adj (map mset ([] # announced r))"

text \<open>What the sections leave alone.\<close>

definition sameChannels :: "Resolver \<Rightarrow> Resolver \<Rightarrow> bool" where
  "sameChannels r r' \<longleftrightarrow> doneClosed r' = doneClosed r \<and> updateClosed r' = updateClosed r \<and> kvKey r' = kvKey r"

lemma announce:
  assumes "resInv r" and "mset addrs \<noteq> mset (lastAddresses r)"
  shows "distinct_adj (map mset ([] # announced r @ [addrs]))"
  using assms distinct_adj_append_iff [of "map mset ([] # announced r)" "[mset addrs]"]
  by (cases "announced r = []") (auto simp: resInv_def last_map)

lemma record_keeps [simp]:
  "resInv (recordAPIRequest t b r) = resInv r" "resInv (recordAPIDuration t d r) = resInv r"
  "resInv (recordKVReadError k e r) = resInv r" "resInv (recordKVValueChange k r) = resInv r"
  "resInv (recordAddressUpdate v r) = resInv r" "resInv (setServiceName n r) = resInv r"
  by (simp_all add: resInv_def record_defs setServiceName_def)

lemma record_channels [simp]:
  "sameChannels r (recordAPIRequest t b r') = sameChannels r r'"
  "sameChannels r (recordAPIDuration t d r') = sameChannels r r'"
  "sameChannels r (recordKVReadError k e r') = sameChannels r r'"
  "sameChannels r (recordKVValueChange k r') = sameChannels r r'"
  "sameChannels r (recordAddressUpdate v r') = sameChannels r r'"
  "sameChannels r (setServiceName n r') = sameChannels r r'" "sameChannels r r"
  by (simp_all add: sameChannels_def record_defs setServiceName_def)

lemma keeps_updateServiceName:
  "resInv r \<Longrightarrow> resInv (snd (updateServiceNameFromKV json dur ans r)) \<and>
     sameChannels r (snd (updateServiceNameFromKV json dur ans r))"
  by (auto simp: updateServiceNameFromKV_def Let_def split: sum.split option.split)

lemma keeps_discoverAnswer:
  assumes "resInv r" and "discoverAnswer svc dur ans r = (x, r')"
  shows "resInv r' \<and> sameChannels r r'"
proof -
  have "resInv (r\<lparr>lastIndex := i, lastInstanceCount := n\<rparr>) = resInv r"
    "sameChannels s (r\<lparr>lastIndex := i, lastInstanceCount := n\<rparr>) = sameChannels s r" for i n r s
    by (simp_all add: resInv_def sameChannels_def)
  then show ?thesis
    using assms by (auto simp: discoverAnswer_def Let_def split: sum.splits if_splits)
qed

lemma keeps_schedule:
  assumes "resInv r" and "scheduleAddressUpdate addrs r = (b, r')"
  shows "resInv r' \<and> sameChannels r r'"
  using assms announce [OF assms(1), of addrs]
  by (auto simp: scheduleAddressUpdate_def areAddressesEqual_iff Let_def resInv_def sameChannels_def
      split: if_splits)

lemma keeps_takePending:
  assumes "resInv r" and "takePending r = (x, r')"
  shows "resInv r' \<and> sameChannels r r'"
  using assms announce [OF assms(1)]
  by (auto simp: takePending_def resInv_def sameChannels_def split: option.splits)

lemma keeps_send:
  "resInv r \<Longrightarrow> sendUpdate addrs r = SendDelivers r' \<Longrightarrow> resInv r' \<and> sameChannels r r'"
  by (auto simp: sendUpdate_def resInv_def sameChannels_def split: if_splits)

lemma keeps_watchKV:
  assumes "resInv r" and "watchKVAnswer json dur i ans r = (x, i', r')"
  shows "resInv r' \<and> sameChannels r r'"
  using assms by (auto simp: watchKVAnswer_def Let_def split: sum.splits option.splits if_splits)

lemma keeps_discover:
  assumes "performDiscover a d (lock, r) = Some (d', lock', r')" and "resInv r"
  shows "resInv r' \<and> sameChannels r r'"
  using assms keeps_discoverAnswer [OF assms(2)] keeps_schedule [OF assms(2)] keeps_send [OF assms(2)]
  by (cases "(a, d, (lock, r))" rule: performDiscover.cases)
    (auto split: if_splits prod.splits sum.splits bool.splits sendOutcome.splits)

section \<open>The invariant of the goroutines\<close>

definition ctlInv :: "system \<Rightarrow> bool" where
  "ctlInv s \<longleftrightarrow>
     (mainG s \<noteq> MainWait \<longrightarrow> svcG s = SvcExit \<and> kvG s = KvExit) \<and>
     (mainG s = MainWait \<and> svcG s = SvcExit \<longrightarrow> doneClosed (res s)) \<and>
     (updateClosed (res s) \<longrightarrow> mainG s = MainExit) \<and>
     (mainG s = MainExit \<longrightarrow> doneClosed (res s)) \<and>
     (panicked s \<longrightarrow> doneClosed (res s))"

definition resolverInv :: "system \<Rightarrow> bool" where
  "resolverInv s \<longleftrightarrow> resInv (res s) \<and> ctlInv s"

lemma dropCallback_fields [simp]:
  "res (dropCallback k s) = res s" "mainG (dropCallback k s) = mainG s"
  "svcG (dropCallback k s) = svcG s" "kvG (dropCallback k s) = kvG s"
  "panicked (dropCallback k s) = panicked s"
  by (simp_all add: dropCallback_def)

lemma resInv_updates [simp]:
  "resInv (r\<lparr>debounceTimer := t\<rparr>) = resInv r" "resInv (r\<lparr>doneClosed := b\<rparr>) = resInv r"
  "resInv (r\<lparr>updateClosed := b\<rparr>) = resInv r"
  by (simp_all add: resInv_def)

lemma resInv_received:
  "resInv r \<Longrightarrow> updateChan r = a # rest \<Longrightarrow> resInv (r\<lparr>updateChan := rest\<rparr>)"
  by (auto simp: resInv_def)

lemma ctlInv_disc:
  assumes "ctlInv s" and "discovering w s = Some d" and "sameChannels (res s) r"
  shows "ctlInv (setDiscover w d' (s\<lparr>locked := lock, res := r\<rparr>))"
  using assms
  by (cases w) (auto simp: ctlInv_def sameChannels_def split: mainPC.splits svcPC.splits kvPC.splits)

text \<open>A call of \<^verbatim>\<open>discover\<close> never sends on the closed channel: it is closed after all of them.\<close>

lemma no_sendPanics:
  assumes "ctlInv s" and "discovering w s = Some d"
  shows "\<not> sendPanics a d (res s)"
proof -
  have "\<not> updateClosed (res s)"
    using assms by (cases w) (auto simp: ctlInv_def split: mainPC.splits svcPC.splits kvPC.splits)
  then show ?thesis by (cases "(a, d, res s)" rule: sendPanics.cases) (auto simp: sendUpdate_def)
qed

text \<open>Every action keeps the invariant, goroutine by goroutine.\<close>

lemma inv_discover:
  assumes "resolverInv s" and run: "perform (Disc w b) s = Some t"
  shows "resolverInv t"
proof -
  have ri: "resInv (res s)" and ci: "ctlInv s" using assms by (simp_all add: resolverInv_def)
  obtain d d' lock r where d: "discovering w s = Some d"
      "performDiscover b d (locked s, res s) = Some (d', lock, r)"
      "t = setDiscover w d' (s\<lparr>locked := lock, res := r\<rparr>)"
    using run no_sendPanics [OF ci] by (auto split: option.splits if_splits)
  have "res t = r" using d(3) by (cases w) simp_all
  then show ?thesis
    using keeps_discover [OF d(2) ri] ctlInv_disc [OF ci d(1)] d(3) by (simp add: resolverInv_def)
qed

lemma inv_main:
  assumes "resolverInv s"
  shows "perform (InitialKV json dur ans) s = Some t \<Longrightarrow> resolverInv t"
    and "perform Spawn s = Some t \<Longrightarrow> resolverInv t"
    and "perform CloseUpdates s = Some t \<Longrightarrow> resolverInv t"
proof -
  have ri: "resInv (res s)" and ci: "ctlInv s" using assms by (simp_all add: resolverInv_def)
  show "perform (InitialKV json dur ans) s = Some t \<Longrightarrow> resolverInv t"
    using ri ci keeps_updateServiceName [OF ri]
    by (auto simp: resolverInv_def ctlInv_def sameChannels_def split: if_splits)
  show "perform CloseUpdates s = Some t \<Longrightarrow> resolverInv t"
    using ri ci by (auto simp: resolverInv_def ctlInv_def split: if_splits)
  assume "perform Spawn s = Some t"
  then obtain e where "mainG s = MainDisc (DEnd e)" "t = s\<lparr>mainG := MainWait, svcG := SvcLoop,
      kvG := (if kvKey (res s) \<noteq> [] then KvLoop 0 else KvExit)\<rparr>"
    by (auto split: mainPC.splits discoverPC.splits)
  then show "resolverInv t" using ri ci by (simp add: resolverInv_def ctlInv_def)
qed

text \<open>The program counter of a running watcher changes to one that has not returned, or \<^verbatim>\<open>Stop\<close> was called.\<close>

lemma inv_set_svc:
  assumes "resolverInv s" and "svcG s \<noteq> SvcExit" and "g = SvcExit \<longrightarrow> doneClosed (res s)"
  shows "resolverInv (s\<lparr>svcG := g\<rparr>)"
  using assms by (cases "mainG s = MainWait") (simp_all add: resolverInv_def ctlInv_def)

lemma inv_set_kv:
  assumes "resolverInv s" and "kvG s \<noteq> KvExit" and "resInv r" and "sameChannels (res s) r"
  shows "resolverInv (s\<lparr>res := r, kvG := g\<rparr>)"
  using assms
  by (cases "mainG s = MainWait") (simp_all add: resolverInv_def ctlInv_def sameChannels_def)

lemma inv_svc:
  assumes "resolverInv s"
  shows "perform SvcTurn s = Some t \<Longrightarrow> resolverInv t"
    and "perform SvcFinished s = Some t \<Longrightarrow> resolverInv t"
    and "perform SvcWake s = Some t \<Longrightarrow> resolverInv t"
  using inv_set_svc [OF assms] by (auto split: if_splits svcPC.splits discoverPC.splits)

lemma inv_kv:
  assumes inv: "resolverInv s"
  shows "perform KvTurn s = Some t \<Longrightarrow> resolverInv t"
    and "perform KvFinished s = Some t \<Longrightarrow> resolverInv t"
    and "perform KvWake s = Some t \<Longrightarrow> resolverInv t"
    and "perform (KvAnswer json dur ans) s = Some t \<Longrightarrow> resolverInv t"
proof -
  have ri: "resInv (res s)" using assms by (simp add: resolverInv_def)
  have set: "kvG s \<noteq> KvExit \<Longrightarrow> resolverInv (s\<lparr>kvG := g\<rparr>)" for g
    using inv_set_kv [OF inv _ ri, of g] by simp
  show "perform KvTurn s = Some t \<Longrightarrow> resolverInv t" "perform KvFinished s = Some t \<Longrightarrow> resolverInv t"
    "perform KvWake s = Some t \<Longrightarrow> resolverInv t"
    using set by (auto split: kvPC.splits discoverPC.splits)
  assume run: "perform (KvAnswer json dur ans) s = Some t"
  then obtain i where kv: "kvG s = KvQueried i" by (cases "kvG s") simp_all
  obtain nx i' r where answer: "watchKVAnswer json dur i ans (res s) = (nx, i', r)"
    by (metis prod_cases3)
  have "resolverInv (s\<lparr>res := r, kvG := g\<rparr>)" for g
    using inv_set_kv [OF inv] keeps_watchKV [OF ri answer] kv by simp
  then show "resolverInv t" using run kv answer by (cases nx) (auto split: if_splits)
qed

lemma inv_callback:
  assumes "resolverInv s"
  shows "perform TimerFires s = Some t \<Longrightarrow> resolverInv t"
    and "perform (CbCheck k) s = Some t \<Longrightarrow> resolverInv t"
    and "perform (CbTake k) s = Some t \<Longrightarrow> resolverInv t"
    and "perform (CbSend k) s = Some t \<Longrightarrow> resolverInv t"
    and "perform (CbSkip k) s = Some t \<Longrightarrow> resolverInv t"
proof -
  have ri: "resInv (res s)" and ci: "ctlInv s" using assms by (simp_all add: resolverInv_def)
  have drop: "resolverInv (dropCallback k s)" using ri ci by (simp add: resolverInv_def ctlInv_def)
  have keep: "resolverInv (s\<lparr>res := r, callbacks := cs\<rparr>)" if "resInv r" "sameChannels (res s) r" for r cs
    using ci that by (simp add: resolverInv_def ctlInv_def sameChannels_def)
  show "perform TimerFires s = Some t \<Longrightarrow> resolverInv t"
    using keep ri by (auto simp: sameChannels_def split: if_splits)
  show "perform (CbCheck k) s = Some t \<Longrightarrow> resolverInv t"
    using drop keep [OF ri] by (auto split: if_splits)
  show "perform (CbSkip k) s = Some t \<Longrightarrow> resolverInv t"
    using drop by (auto split: option.splits callbackPC.splits if_splits)
  obtain x r where tp: "takePending (res s) = (x, r)" by (cases "takePending (res s)")
  show "perform (CbTake k) s = Some t \<Longrightarrow> resolverInv t"
    using drop keep keeps_takePending [OF ri tp] tp by (cases x) (auto split: if_splits)
  assume run: "perform (CbSend k) s = Some t"
  then obtain addrs where cb: "callbackAt k s = Some (CbPublish addrs)"
    by (auto split: option.splits callbackPC.splits)
  show "resolverInv t"
  proof (cases "sendUpdate addrs (res s)")
    case SendPanics
    then have "t = s\<lparr>panicked := True\<rparr>" and "updateClosed (res s)"
      using run cb by (auto simp: sendUpdate_def split: if_splits)
    then show ?thesis using ri ci by (simp add: resolverInv_def ctlInv_def)
  next
    case (SendDelivers r)
    then have "t = dropCallback k (s\<lparr>res := r\<rparr>)" using run cb by simp
    then show ?thesis
      using ci keeps_send [OF ri SendDelivers] by (simp add: resolverInv_def ctlInv_def sameChannels_def)
  qed (use run cb in simp)
qed

lemma inv_stop:
  assumes "resolverInv s"
  shows "perform StopCalled s = Some t \<Longrightarrow> resolverInv t"
    and "perform StopTimer s = Some t \<Longrightarrow> resolverInv t"
    and "perform Receive s = Some t \<Longrightarrow> resolverInv t"
proof -
  have ri: "resInv (res s)" and ci: "ctlInv s" using assms by (simp_all add: resolverInv_def)
  have "resolverInv (s\<lparr>panicked := True\<rparr>)" if "doneClosed (res s)"
    using ri ci that by (simp add: resolverInv_def ctlInv_def)
  moreover have "resolverInv (s\<lparr>res := (res s)\<lparr>doneClosed := True\<rparr>, stopping := True\<rparr>)"
    using ri ci by (simp add: resolverInv_def ctlInv_def)
  ultimately show "perform StopCalled s = Some t \<Longrightarrow> resolverInv t" by (auto split: if_splits)
  have "resolverInv (s\<lparr>stopping := False, res := (res s)\<lparr>debounceTimer := x\<rparr>\<rparr>)" for x
    using ri ci by (simp add: resolverInv_def ctlInv_def)
  then show "perform StopTimer s = Some t \<Longrightarrow> resolverInv t" by (auto split: if_splits)
  have "resolverInv (s\<lparr>res := (res s)\<lparr>updateChan := rest\<rparr>\<rparr>)" if "updateChan (res s) = a # rest" for a rest
    using resInv_received [OF ri that] ci by (simp add: resolverInv_def ctlInv_def)
  then show "perform Receive s = Some t \<Longrightarrow> resolverInv t" by (auto split: list.splits)
qed

lemma resolverInv_perform:
  assumes "resolverInv s" and "perform a s = Some t"
  shows "resolverInv t"
  using assms(2) inv_discover [OF assms(1)] inv_main [OF assms(1)] inv_svc [OF assms(1)] inv_kv [OF assms(1)]
    inv_callback [OF assms(1)] inv_stop [OF assms(1)]
  by (cases a) (simp_all only:)

text \<open>A resolver as \<^verbatim>\<open>NewResolver\<close> makes it, when \<^verbatim>\<open>Start\<close> is called.\<close>

definition startsFresh :: "system \<Rightarrow> bool" where
  "startsFresh s \<longleftrightarrow> (\<exists>newClient M cfg r. NewResolver newClient M cfg = Inr r \<and> s = started r)"

lemma initMetrics_Inr: "initMetrics M r = Inr r' \<Longrightarrow> r' = r\<lparr>instruments := True\<rparr>"
  by (auto simp: initMetrics_def Let_def simp del: find.simps split: option.splits prod.splits)

lemma NewResolver_state:
  assumes "NewResolver newClient M cfg = Inr r"
  shows "updateChan r = [] \<and> \<not> updateClosed r \<and> \<not> doneClosed r \<and> lastAddresses r = [] \<and>
     pendingAddresses r = None \<and> announced r = [] \<and> debounceTimer r = None \<and> kvKey r \<noteq> [] \<and>
     debounceDuration r \<noteq> 0"
  using assms
  by (auto simp: NewResolver_def Config_Validate_def DefaultConfig_def duration_defs Let_def
      dest!: initMetrics_Inr split: option.splits if_splits)

lemma resolverInv_start: "startsFresh s \<Longrightarrow> resolverInv s"
  by (auto simp: startsFresh_def resolverInv_def started_def resInv_def ctlInv_def dest!: NewResolver_state)

interpretation consul: step_system startsFresh resolverStep resolverInv
  by unfold_locales (auto intro: resolverInv_start resolverInv_perform elim: resolverStepE)

section \<open>A concrete resolver\<close>

definition refMeter :: meterlib where
  "refMeter = \<lparr>createInstrument = (\<lambda>_. None), registerCallback = None\<rparr>"

definition refResolver :: Resolver where
  "refResolver = (case NewResolver (\<lambda>_. None) refMeter (DefaultConfig\<lparr>KVKey := ''brokers''\<rparr>) of
     Inr r \<Rightarrow> r | Inl _ \<Rightarrow> \<lparr>serviceName = [], updateChan = [], updateClosed = True, doneClosed = True,
       waitTime = 0, healthyOnly = False, lastIndex = 0, kvKey = [], lastAddresses = [],
       debounceDuration = 0, debounceTimer = None, pendingAddresses = None, commonAttrs = [],
       lastInstanceCount = 0, instruments = False, recorded = [], announced = []\<rparr>)"

lemma refResolver_fields [simp]:
  "lastAddresses refResolver = []" "debounceDuration refResolver = 5 * second" "announced refResolver = []"
  "pendingAddresses refResolver = None" "updateChan refResolver = []"
  by (simp_all add: refResolver_def NewResolver_def Config_Validate_def DefaultConfig_def duration_defs Let_def)

lemma startsFresh_refResolver: "startsFresh (started refResolver)"
proof -
  have "\<exists>r. NewResolver (\<lambda>_. None) refMeter (DefaultConfig\<lparr>KVKey := ''brokers''\<rparr>) = Inr r"
    by (simp add: NewResolver_def Config_Validate_def DefaultConfig_def Let_def)
  then show ?thesis unfolding startsFresh_def refResolver_def by fastforce
qed

text \<open>The name of a service is stored under the key as its bytes.\<close>

definition refName :: "bytes \<Rightarrow> goerror + string" where
  "refName bs = Inr (map (\<lambda>b. char_of (unat b)) bs)"

definition named :: "string \<Rightarrow> goerror + bytes option" where
  "named svc = Inr (Some (map of_char svc))"

definition instanceOf :: "string \<Rightarrow> goerror + ServiceEntry list \<times> 64 word" where
  "instanceOf host = Inr ([\<lparr>svcAddress = host, nodeAddress = [], svcPort = 1883\<rparr>], 7)"

end
