(* ===== verification/ConsulProps.thy ===== *)
theory ConsulProps
  imports ConsulRun
begin

text \<open>
  What the Consul resolver promises: when two lists count as equal, that no update repeats the
  one before it, that a burst of changes gives one update, that it panics only after it was
  stopped, and two runs in which the interleaving of its goroutines goes wrong.
\<close>

section \<open>A burst of changes\<close>

lemma schedule_debounced:
  assumes "0 < debounceDuration r" and "resInv r"
  shows "fst (scheduleAddressUpdate l r) = False"
    "lastAddresses (snd (scheduleAddressUpdate l r)) = lastAddresses r"
    "announced (snd (scheduleAddressUpdate l r)) = announced r"
    "debounceDuration (snd (scheduleAddressUpdate l r)) = debounceDuration r"
    "pendingAddresses (snd (scheduleAddressUpdate l r)) = (if mset l = mset (lastAddresses r) then None else Some l)"
    "resInv (snd (scheduleAddressUpdate l r))"
proof -
  show "resInv (snd (scheduleAddressUpdate l r))"
    using keeps_schedule [OF assms(2)] by (metis prod.collapse)
qed (use assms in \<open>auto simp: scheduleAddressUpdate_def areAddressesEqual_iff Let_def\<close>)

lemma schedules_debounced:
  assumes "0 < debounceDuration r" and "resInv r" and "ls \<noteq> []"
    and "r' = fold (\<lambda>l r. snd (scheduleAddressUpdate l r)) ls r"
  shows "lastAddresses r' = lastAddresses r \<and> announced r' = announced r \<and>
     pendingAddresses r' = (if mset (last ls) = mset (lastAddresses r) then None else Some (last ls))"
  using assms
proof (induction ls arbitrary: r)
  case Nil
  then show ?case by simp
next
  case (Cons l ls)
  note one = schedule_debounced [OF Cons.prems(1,2), of l]
  show ?case
  proof (cases "ls = []")
    case True
    then show ?thesis using Cons.prems(4) one by simp
  next
    case False
    then show ?thesis
      using Cons.IH [of "snd (scheduleAddressUpdate l r)"] one Cons.prems by simp
  qed
qed

section \<open>Runs\<close>

text \<open>
  A run in which the debounce timer fires just before \<^verbatim>\<open>Stop\<close>: its function has checked the done
  channel, the watchers return, \<^verbatim>\<open>Start\<close> closes the update channel, and the function sends.
\<close>

definition lateTimerRun :: "action list" where
  "lateTimerRun =
     [InitialKV refName 0 (named ''a''), Disc Main Query, Disc Main (ServiceAnswer 0 (instanceOf ''ha'')),
      Disc Main Schedule, Spawn, TimerFires, CbCheck 0, CbTake 0,
      StopCalled, StopTimer, SvcTurn, KvTurn, CloseUpdates, CbSend 0]"

text \<open>
  A run in which the service changes from \<^verbatim>\<open>a\<close> to \<^verbatim>\<open>b\<close> after the services watcher accepted an answer on
  \<^verbatim>\<open>a\<close> and before it schedules the addresses: they replace those of \<^verbatim>\<open>b\<close>.
\<close>

definition staleRun :: "action list" where
  "staleRun =
     [InitialKV refName 0 (named ''a''), Disc Main Query, Disc Main (ServiceAnswer 0 (Inl ErrConnectTimeout)), Spawn,
      SvcTurn, Disc Svc Query, Disc Svc (ServiceAnswer 0 (instanceOf ''ha'')),
      KvTurn, KvAnswer refName 0 (Inr (Some (map of_char ''b''), Some 9)),
      Disc Kv Query, Disc Kv (ServiceAnswer 0 (instanceOf ''hb'')), Disc Kv Schedule,
      Disc Svc Schedule, TimerFires, CbCheck 0, CbTake 0, CbSend 0]"

section \<open>Properties\<close>

text \<open>
  Two address lists count as equal exactly when they hold the same addresses the same
  number of times, in any order.
\<close>

theorem addresses_equal_iff: "areAddressesEqual a b \<longleftrightarrow> mset a = mset b"
  by (rule areAddressesEqual_iff)

text \<open>
  C27: In every run of the resolver, however its goroutines and timers interleave, the
  sequence of address lists it takes over never repeats a list that is equal to the one
  before it, the first one is not empty, and at most one list waits in the update channel.
\<close>

theorem no_repeated_update:
  assumes "startsFresh s" and "resolverStep\<^sup>*\<^sup>* s t"
  shows "distinct_adj (map mset ([] # announced (res t))) \<and> length (updateChan (res t)) \<le> 1"
  using consul.inv_run [OF assms] by (simp add: resolverInv_def resInv_def)

theorem no_repeated_update_witness:
  "distinct_adj (map mset ([] # announced (res (started refResolver)))) \<and>
   length (updateChan (res (started refResolver))) \<le> 1"
  using no_repeated_update [OF startsFresh_refResolver rtranclp.rtrancl_refl] .

text \<open>
  C28: A burst of changes gives at most one update: when a sequence of address lists is
  scheduled before the debounce timer fires, its function takes over the last of them, or
  none when the last is equal to the list published before.
\<close>

theorem burst_gives_last:
  assumes "0 < debounceDuration r" and "resInv r" and "ls \<noteq> []"
    and "takePending (fold (\<lambda>l r. snd (scheduleAddressUpdate l r)) ls r) = (x, r')"
  shows "announced r' = (if mset (last ls) = mset (lastAddresses r) then announced r else announced r @ [last ls])"
  using schedules_debounced [OF assms(1-3) refl] assms(4)
  by (auto simp: takePending_def split: option.splits if_splits)

theorem burst_gives_last_witness:
  "announced (snd (takePending (fold (\<lambda>l r. snd (scheduleAddressUpdate l r))
      [[TCPAddress ''a'' 1], [TCPAddress ''a'' 1, TCPAddress ''b'' 2]] refResolver))) =
     [[TCPAddress ''a'' 1, TCPAddress ''b'' 2]]"
proof -
  have "resInv refResolver"
    using resolverInv_start [OF startsFresh_refResolver] by (simp add: resolverInv_def started_def)
  moreover obtain x r' where "takePending (fold (\<lambda>l r. snd (scheduleAddressUpdate l r))
      [[TCPAddress ''a'' 1], [TCPAddress ''a'' 1, TCPAddress ''b'' 2]] refResolver) = (x, r')" by fastforce
  ultimately show ?thesis
    using burst_gives_last [of refResolver "[[TCPAddress ''a'' 1], [TCPAddress ''a'' 1, TCPAddress ''b'' 2]]" x r']
    by (simp add: duration_defs)
qed

text \<open>
  C29: The resolver never panics before it is stopped: in every run, a panic comes after a
  call of \<^verbatim>\<open>Stop\<close>, and the update channel is closed only then, when \<^verbatim>\<open>Start\<close> has returned.
\<close>

theorem panics_only_after_stop:
  assumes "startsFresh s" and "resolverStep\<^sup>*\<^sup>* s t" and "panicked t \<or> updateClosed (res t)"
  shows "doneClosed (res t) \<and> (updateClosed (res t) \<longrightarrow> mainG t = MainExit)"
  using consul.inv_run [OF assms(1,2)] assms(3) by (auto simp: resolverInv_def ctlInv_def)

theorem panics_only_after_stop_witness:
  "\<exists>t. resolverStep\<^sup>*\<^sup>* (started refResolver) t \<and> panicked t \<and> doneClosed (res t)"
proof -
  let ?s = "started refResolver"
  let ?t = "?s\<lparr>res := (res ?s)\<lparr>doneClosed := True\<rparr>, stopping := True\<rparr>"
  have "\<not> doneClosed (res ?s) \<and> \<not> panicked ?s"
    using resolverInv_start [OF startsFresh_refResolver] startsFresh_refResolver
    by (auto simp: startsFresh_def started_def dest!: NewResolver_state)
  then have "resolverStep ?s ?t" "resolverStep ?t (?t\<lparr>panicked := True\<rparr>)"
    by (auto intro!: resolverStep.step [where a = StopCalled])
  then have run: "resolverStep\<^sup>*\<^sup>* ?s (?t\<lparr>panicked := True\<rparr>)" by auto
  have "doneClosed (res (?t\<lparr>panicked := True\<rparr>))"
    using panics_only_after_stop [OF startsFresh_refResolver run] by simp
  with run show ?thesis by (intro exI [of _ "?t\<lparr>panicked := True\<rparr>"]) simp
qed



end
