(* ===== verification/ConsulStop.thy ===== *)
theory ConsulStop
  imports ConsulRun
begin

text \<open>
  The end of a resolver: once \<^verbatim>\<open>Stop\<close> has closed \<^verbatim>\<open>doneChan\<close>, its goroutines and the functions of its
  timers take finitely many more steps, whatever Consul answers and whoever runs, and can always
  go on to their ends without a panic. The lock is held across a send only by a call of
  \<^verbatim>\<open>discover\<close> that the closed channel lets go on.
\<close>

section \<open>What is left to do\<close>

fun discoverLeft :: "discoverPC \<Rightarrow> nat" where
  "discoverLeft DBegin = 8"
| "discoverLeft (DQueried svc idx) = 7"
| "discoverLeft (DSchedule svc addrs) = 6"
| "discoverLeft (DPublish addrs) = 3"
| "discoverLeft (DEnd e) = 1"

fun mainLeft :: "mainPC \<Rightarrow> nat" where
  "mainLeft MainKV = 12"
| "mainLeft (MainDisc d) = 3 + discoverLeft d"
| "mainLeft MainWait = 1"
| "mainLeft MainExit = 0"

fun svcLeft :: "svcPC \<Rightarrow> nat" where
  "svcLeft SvcLoop = 1"
| "svcLeft (SvcDisc d) = 2 + discoverLeft d"
| "svcLeft SvcBackoff = 2"
| "svcLeft SvcExit = 0"

fun kvLeft :: "kvPC \<Rightarrow> nat" where
  "kvLeft (KvLoop i) = 1"
| "kvLeft (KvQueried i) = 10"
| "kvLeft (KvDisc i d) = 1 + discoverLeft d"
| "kvLeft (KvBackoff i) = 2"
| "kvLeft KvExit = 0"

fun callbackLeft :: "callbackPC \<Rightarrow> nat" where
  "callbackLeft CbStarted = 1"
| "callbackLeft CbChecked = 3"
| "callbackLeft (CbPublish addrs) = 2"

definition timerLeft :: "Resolver \<Rightarrow> nat" where
  "timerLeft r = (if debounceTimer r = Some Armed then 2 else 0)"

definition shutdownLeft :: "system \<Rightarrow> nat" where
  "shutdownLeft s = mainLeft (mainG s) + svcLeft (svcG s) + kvLeft (kvG s) +
     sum_list (map callbackLeft (callbacks s)) + timerLeft (res s) + length (updateChan (res s)) +
     of_bool (stopping s) + of_bool (\<not> panicked s)"

text \<open>Sections that neither arm the timer nor send.\<close>

definition sameLoad :: "Resolver \<Rightarrow> Resolver \<Rightarrow> bool" where
  "sameLoad r r' \<longleftrightarrow> debounceTimer r' = debounceTimer r \<and> updateChan r' = updateChan r"

lemma sameLoad_left:
  "sameLoad r r' \<Longrightarrow> timerLeft r' = timerLeft r \<and> length (updateChan r') = length (updateChan r)"
  by (simp add: sameLoad_def timerLeft_def)

lemma record_load [simp]:
  "sameLoad r (recordAPIRequest t b r') = sameLoad r r'"
  "sameLoad r (recordAPIDuration t d r') = sameLoad r r'"
  "sameLoad r (recordKVReadError k e r') = sameLoad r r'"
  "sameLoad r (recordKVValueChange k r') = sameLoad r r'"
  "sameLoad r (recordAddressUpdate v r') = sameLoad r r'"
  "sameLoad r (setServiceName n r') = sameLoad r r'" "sameLoad r r"
  "sameLoad r (r'\<lparr>lastIndex := i, lastInstanceCount := m\<rparr>) = sameLoad r r'"
  by (simp_all add: sameLoad_def record_defs setServiceName_def)

lemma load_updateServiceName: "sameLoad r (snd (updateServiceNameFromKV json dur ans r))"
  by (auto simp: updateServiceNameFromKV_def Let_def split: sum.split option.split)

lemma load_discoverAnswer: "discoverAnswer svc dur ans r = (x, r') \<Longrightarrow> sameLoad r r'"
  by (auto simp: discoverAnswer_def Let_def split: sum.splits if_splits)

lemma load_watchKV: "watchKVAnswer json dur i ans r = (x, i', r') \<Longrightarrow> sameLoad r r'"
  by (auto simp: watchKVAnswer_def Let_def split: sum.splits option.splits if_splits)

lemma load_takePending: "takePending r = (x, r') \<Longrightarrow> sameLoad r r'"
  by (auto simp: takePending_def sameLoad_def split: option.splits)

lemma schedule_left:
  "scheduleAddressUpdate addrs r = (b, r') \<Longrightarrow>
     timerLeft r' \<le> 2 \<and> updateChan r' = updateChan r \<and> (b \<longrightarrow> timerLeft r' = 0)"
  by (auto simp: scheduleAddressUpdate_def timerLeft_def Let_def split: if_splits)

lemma discover_left:
  assumes "performDiscover a d (lock, r) = Some (d', lock', r')"
  shows "discoverLeft d' + timerLeft r' + length (updateChan r') <
    discoverLeft d + timerLeft r + length (updateChan r)"
  using assms
proof (cases "(a, d, (lock, r))" rule: performDiscover.cases)
  case (2 dur answer svc idx lock r)
  with assms show ?thesis
    using sameLoad_left [OF load_discoverAnswer]
    by (auto split: if_splits sum.splits prod.splits)
next
  case (3 svc addrs lock r)
  obtain b r2 where s: "scheduleAddressUpdate addrs r = (b, r2)" by fastforce
  have "timerLeft (recordAddressUpdate svc r2) = timerLeft r2 \<and>
      updateChan (recordAddressUpdate svc r2) = updateChan r2"
    using sameLoad_left [of r2 "recordAddressUpdate svc r2"] record_load(5,7)
    by (simp add: record_defs)
  with 3 assms s schedule_left [OF s] show ?thesis by (cases b) (auto split: if_splits)
next
  case (4 addrs lock r)
  with assms show ?thesis
    by (auto simp: sendUpdate_def timerLeft_def split: sendOutcome.splits if_splits)
qed (auto simp: Let_def split: if_splits prod.splits)

section \<open>Every step leaves less\<close>

definition callbacksLeft :: "system \<Rightarrow> nat" where
  "callbacksLeft s = sum_list (map callbackLeft (callbacks s))"

lemma callbacksLeft_drop:
  assumes "callbackAt k s = Some c"
  shows "callbacksLeft (dropCallback k s) + callbackLeft c = callbacksLeft s"
  using arg_cong [OF callbacks_split [OF assms], of "\<lambda>cs. sum_list (map callbackLeft cs)"]
  by (simp add: callbacksLeft_def dropCallback_def)

lemma callbacksLeft_update:
  assumes "callbackAt k s = Some c"
  shows "sum_list (map callbackLeft ((callbacks s)[k := c'])) + callbackLeft c =
    callbacksLeft s + callbackLeft c'"
  using arg_cong [OF callbacks_split [OF assms], of "\<lambda>cs. sum_list (map callbackLeft cs)"] assms
  by (simp add: callbacksLeft_def callbackAt_Some upd_conv_take_nth_drop)

lemma shutdownLeft_alt:
  "shutdownLeft s = mainLeft (mainG s) + svcLeft (svcG s) + kvLeft (kvG s) + callbacksLeft s +
     timerLeft (res s) + length (updateChan (res s)) + of_bool (stopping s) + of_bool (\<not> panicked s)"
  by (simp add: shutdownLeft_def callbacksLeft_def)

lemma callbacksLeft_simps [simp]:
  "callbacksLeft (s\<lparr>res := r\<rparr>) = callbacksLeft s" "callbacksLeft (s\<lparr>locked := b\<rparr>) = callbacksLeft s"
  "callbacksLeft (s\<lparr>mainG := m\<rparr>) = callbacksLeft s" "callbacksLeft (s\<lparr>svcG := v\<rparr>) = callbacksLeft s"
  "callbacksLeft (s\<lparr>kvG := g\<rparr>) = callbacksLeft s" "callbacksLeft (s\<lparr>stopping := b\<rparr>) = callbacksLeft s"
  "callbacksLeft (s\<lparr>panicked := b\<rparr>) = callbacksLeft s"
  "callbacksLeft (s\<lparr>callbacks := cs\<rparr>) = sum_list (map callbackLeft cs)"
  by (simp_all add: callbacksLeft_def)

lemma timerLeft_simps [simp]:
  "timerLeft (r\<lparr>doneClosed := b\<rparr>) = timerLeft r" "timerLeft (r\<lparr>updateClosed := b\<rparr>) = timerLeft r"
  "timerLeft (r\<lparr>updateChan := u\<rparr>) = timerLeft r"
  by (simp_all add: timerLeft_def)

lemma left_discover:
  assumes "perform (Disc w b) s = Some t" and "\<not> panicked s"
  shows "shutdownLeft t < shutdownLeft s"
proof (cases "panicked t")
  case True
  with assms have "t = s\<lparr>panicked := True\<rparr>"
    by (cases w) (auto split: option.splits if_splits)
  with assms(2) show ?thesis by (simp add: shutdownLeft_alt)
next
  case False
  with assms obtain d d' lock r where d: "discovering w s = Some d"
      "performDiscover b d (locked s, res s) = Some (d', lock, r)"
      "t = setDiscover w d' (s\<lparr>locked := lock, res := r\<rparr>)"
    by (auto split: option.splits if_splits)
  from discover_left [OF d(2)] d(1,3) assms(2) show ?thesis
    by (cases w) (auto simp: shutdownLeft_alt split: mainPC.splits svcPC.splits kvPC.splits)
qed

lemma left_main:
  assumes "\<not> panicked s"
  shows "perform (InitialKV json dur ans) s = Some t \<Longrightarrow> shutdownLeft t < shutdownLeft s"
    and "ctlInv s \<Longrightarrow> perform Spawn s = Some t \<Longrightarrow> shutdownLeft t < shutdownLeft s"
    and "perform CloseUpdates s = Some t \<Longrightarrow> shutdownLeft t < shutdownLeft s"
proof -
  show "perform (InitialKV json dur ans) s = Some t \<Longrightarrow> shutdownLeft t < shutdownLeft s"
    using sameLoad_left [OF load_updateServiceName [of "res s" json dur ans]]
    by (auto simp: shutdownLeft_alt split: if_splits)
  show "ctlInv s \<Longrightarrow> perform Spawn s = Some t \<Longrightarrow> shutdownLeft t < shutdownLeft s"
    by (auto simp: shutdownLeft_alt ctlInv_def split: mainPC.splits discoverPC.splits)
  show "perform CloseUpdates s = Some t \<Longrightarrow> shutdownLeft t < shutdownLeft s"
    by (auto simp: shutdownLeft_alt split: if_splits)
qed

lemma left_watchers:
  assumes "doneClosed (res s)"
  shows "perform SvcTurn s = Some t \<Longrightarrow> shutdownLeft t < shutdownLeft s"
    and "perform SvcFinished s = Some t \<Longrightarrow> shutdownLeft t < shutdownLeft s"
    and "perform SvcWake s = Some t \<Longrightarrow> shutdownLeft t < shutdownLeft s"
    and "perform KvTurn s = Some t \<Longrightarrow> shutdownLeft t < shutdownLeft s"
    and "perform KvFinished s = Some t \<Longrightarrow> shutdownLeft t < shutdownLeft s"
    and "perform KvWake s = Some t \<Longrightarrow> shutdownLeft t < shutdownLeft s"
  using assms
  by (auto simp: shutdownLeft_alt split: if_splits svcPC.splits kvPC.splits discoverPC.splits)

lemma left_kvAnswer:
  assumes "perform (KvAnswer json dur ans) s = Some t"
  shows "shutdownLeft t < shutdownLeft s"
proof -
  obtain i where kv: "kvG s = KvQueried i" using assms by (cases "kvG s") simp_all
  obtain nx i' r where answer: "watchKVAnswer json dur i ans (res s) = (nx, i', r)"
    by (metis prod_cases3)
  from assms kv answer sameLoad_left [OF load_watchKV [OF answer]] show ?thesis
    by (cases nx) (auto simp: shutdownLeft_alt split: if_splits)
qed

lemma left_callback:
  assumes "doneClosed (res s)" and "\<not> panicked s"
  shows "perform TimerFires s = Some t \<Longrightarrow> shutdownLeft t < shutdownLeft s"
    and "perform (CbCheck k) s = Some t \<Longrightarrow> shutdownLeft t < shutdownLeft s"
    and "perform (CbTake k) s = Some t \<Longrightarrow> shutdownLeft t < shutdownLeft s"
    and "perform (CbSend k) s = Some t \<Longrightarrow> shutdownLeft t < shutdownLeft s"
    and "perform (CbSkip k) s = Some t \<Longrightarrow> shutdownLeft t < shutdownLeft s"
proof -
  have drop: "shutdownLeft (dropCallback k s) < shutdownLeft s" if "callbackAt k s = Some c" for c
    using callbacksLeft_drop [OF that] by (cases c) (simp_all add: shutdownLeft_alt dropCallback_def)
  show "perform TimerFires s = Some t \<Longrightarrow> shutdownLeft t < shutdownLeft s"
    by (auto simp: shutdownLeft_alt timerLeft_def callbacksLeft_def split: if_splits)
  show "perform (CbCheck k) s = Some t \<Longrightarrow> shutdownLeft t < shutdownLeft s"
    using drop assms(1) by (auto split: if_splits)
  show "perform (CbSkip k) s = Some t \<Longrightarrow> shutdownLeft t < shutdownLeft s"
    using drop by (auto split: option.splits callbackPC.splits if_splits)
  obtain x r where tp: "takePending (res s) = (x, r)" by (cases "takePending (res s)")
  have rec: "timerLeft (recordAddressUpdate svc r) = timerLeft (res s) \<and>
      length (updateChan (recordAddressUpdate svc r)) = length (updateChan (res s))" for svc
    using sameLoad_left [of "res s" "recordAddressUpdate svc r"] load_takePending [OF tp] by simp
  have upd: "sum_list (map callbackLeft ((callbacks s)[k := CbPublish a])) < callbacksLeft s"
    if "callbackAt k s = Some CbChecked" for a
    using callbacksLeft_update [OF that, of "CbPublish a"] by simp
  show "perform (CbTake k) s = Some t \<Longrightarrow> shutdownLeft t < shutdownLeft s"
  proof (cases x)
    case (Some y)
    then show "perform (CbTake k) s = Some t \<Longrightarrow> shutdownLeft t < shutdownLeft s"
      using tp rec upd by (cases y) (auto simp: shutdownLeft_alt split: if_splits)
  qed (use tp drop in \<open>auto split: if_splits\<close>)
  assume run: "perform (CbSend k) s = Some t"
  then obtain addrs where cb: "callbackAt k s = Some (CbPublish addrs)"
    by (auto split: option.splits callbackPC.splits)
  with run callbacksLeft_drop [OF cb] assms(2) show "shutdownLeft t < shutdownLeft s"
    by (auto simp: shutdownLeft_alt sendUpdate_def dropCallback_def split: if_splits)
qed

lemma left_stop:
  assumes "doneClosed (res s)" and "\<not> panicked s"
  shows "perform StopCalled s = Some t \<Longrightarrow> shutdownLeft t < shutdownLeft s"
    and "perform StopTimer s = Some t \<Longrightarrow> shutdownLeft t < shutdownLeft s"
    and "perform Receive s = Some t \<Longrightarrow> shutdownLeft t < shutdownLeft s"
  using assms by (auto simp: shutdownLeft_alt timerLeft_def split: if_splits list.splits option.splits)

lemma perform_left:
  assumes "resolverInv s" and "doneClosed (res s)" and "\<not> panicked s" and "perform a s = Some t"
  shows "shutdownLeft t < shutdownLeft s"
proof -
  have "ctlInv s" using assms(1) by (simp add: resolverInv_def)
  with assms left_discover left_main [OF assms(3)] left_watchers [OF assms(2)] left_kvAnswer
    left_callback [OF assms(2,3)] left_stop [OF assms(2,3)]
  show ?thesis by (cases a) (simp_all only:)
qed

section \<open>Somebody can always go on\<close>

text \<open>The lock is held from one step to the next only by a call that publishes.\<close>

definition lockInv :: "system \<Rightarrow> bool" where
  "lockInv s \<longleftrightarrow> (locked s \<longrightarrow> (\<exists>w addrs. discovering w s = Some (DPublish addrs)))"

lemma performDiscover_lock:
  assumes "performDiscover a d (lock, r) = Some (d', lock', r')" and "lock'"
  shows "(\<exists>addrs. d' = DPublish addrs) \<or> (lock \<and> (\<forall>addrs. d \<noteq> DPublish addrs))"
  using assms
  by (cases "(a, d, (lock, r))" rule: performDiscover.cases)
    (auto simp: Let_def split: if_splits prod.splits sum.splits bool.splits sendOutcome.splits)

lemma lockInv_disc:
  assumes "lockInv s" and "perform (Disc w b) s = Some t"
  shows "lockInv t"
proof (cases "\<exists>d. discovering w s = Some d \<and> sendPanics b d (res s)")
  case True
  then have "t = s\<lparr>panicked := True\<rparr>" using assms(2) by auto
  with assms(1) show ?thesis by (simp add: lockInv_def)
next
  case False
  with assms(2) obtain d d' lock r where d: "discovering w s = Some d"
      "performDiscover b d (locked s, res s) = Some (d', lock, r)"
      "t = setDiscover w d' (s\<lparr>locked := lock, res := r\<rparr>)"
    by (auto split: option.splits if_splits)
  show ?thesis
    unfolding lockInv_def
  proof
    assume "locked t"
    with d(3) have lock: lock by simp
    from performDiscover_lock [OF d(2) lock] show "\<exists>w addrs. discovering w t = Some (DPublish addrs)"
    proof
      assume "\<exists>addrs. d' = DPublish addrs"
      with d show ?thesis by (auto intro!: exI [of _ w])
    next
      assume l: "locked s \<and> (\<forall>addrs. d \<noteq> DPublish addrs)"
      with assms(1) obtain w' addrs where w': "discovering w' s = Some (DPublish addrs)"
        by (auto simp: lockInv_def)
      with l d(1) have "w' \<noteq> w" by auto
      with w' d(3) show ?thesis by (intro exI [of _ w'] exI [of _ addrs]) simp
    qed
  qed
qed

lemma keeps_publishing:
  assumes "perform a s = Some t" and "\<forall>w b. a \<noteq> Disc w b" and "ctlInv s"
  shows "locked t = locked s"
    and "discovering w s = Some (DPublish addrs) \<Longrightarrow> discovering w t = Some (DPublish addrs)"
proof -
  show "locked t = locked s"
    using assms(1,2)
    by (cases a) (auto simp del: discovering.simps split: if_splits option.splits mainPC.splits
      svcPC.splits kvPC.splits discoverPC.splits callbackPC.splits prod.splits kvNext.splits
      sendOutcome.splits list.splits)
  show "discovering w s = Some (DPublish addrs) \<Longrightarrow> discovering w t = Some (DPublish addrs)"
    using assms
    by (cases a; cases w) (auto simp: ctlInv_def split: if_splits option.splits mainPC.splits
      svcPC.splits kvPC.splits discoverPC.splits callbackPC.splits prod.splits kvNext.splits
      sendOutcome.splits list.splits)
qed

lemma lockInv_perform:
  assumes "lockInv s" and "ctlInv s" and "perform a s = Some t"
  shows "lockInv t"
proof (cases "\<exists>w b. a = Disc w b")
  case True
  with assms lockInv_disc show ?thesis by blast
next
  case False
  with assms keeps_publishing [OF assms(3) _ assms(2)] show ?thesis
    unfolding lockInv_def by metis
qed

definition calmMove :: "system \<Rightarrow> bool" where
  "calmMove s \<longleftrightarrow> (\<exists>a t. perform a s = Some t \<and> \<not> panicked t)"

lemma calmMoveI: "\<exists>t. perform a s = Some t \<and> \<not> panicked t \<Longrightarrow> calmMove s"
  unfolding calmMove_def by blast

lemma discover_moves:
  assumes "performDiscover a d (locked s, res s) = Some (d', lock, r)" and "discovering w s = Some d"
    and "a \<noteq> SendHeld" and "\<not> panicked s"
  shows "calmMove s"
proof -
  have "\<not> sendPanics a d (res s)"
    using assms(3) by (cases "(a, d, res s)" rule: sendPanics.cases) auto
  with assms show ?thesis by (intro calmMoveI [of "Disc w a"]) simp
qed

lemma discover_calm:
  assumes "discovering w s = Some d" and "\<forall>e. d \<noteq> DEnd e" and "doneClosed (res s)" and "\<not> panicked s"
    and "\<not> locked s \<or> (\<exists>addrs. d = DPublish addrs)"
  shows "calmMove s"
proof (cases d)
  case DBegin
  with assms show ?thesis by (intro discover_moves [of Query]) (auto simp: discoverQuery_def)
next
  case (DQueried svc idx)
  have "performDiscover (ServiceAnswer 0 (Inl (ErrorString []))) d (locked s, res s) =
      Some (DEnd (fst (apfst projl (discoverAnswer svc 0 (Inl (ErrorString [])) (res s)))), locked s,
        snd (discoverAnswer svc 0 (Inl (ErrorString [])) (res s)))"
    using DQueried by (simp add: discoverAnswer_def Let_def)
  with assms show ?thesis by (intro discover_moves) auto
next
  case (DSchedule svc addrs)
  obtain b r where "scheduleAddressUpdate addrs (res s) = (b, r)" by fastforce
  with DSchedule assms show ?thesis by (cases b) (intro discover_moves [of Schedule]; auto)+
next
  case (DPublish addrs)
  with assms show ?thesis by (intro discover_moves [of SkipSend]) auto
qed (use assms in simp)

lemma callback_calm:
  assumes "callbacks s = c # cs" and "doneClosed (res s)" and "\<not> panicked s" and "\<not> locked s"
  shows "calmMove s"
proof -
  have at: "callbackAt 0 s = Some c" using assms(1) by (simp add: callbackAt_Some)
  show ?thesis
  proof (cases c)
    case CbStarted
    with at assms show ?thesis by (intro calmMoveI [of "CbCheck 0"]) auto
  next
    case CbChecked
    obtain x r where "takePending (res s) = (x, r)" by fastforce
    with CbChecked at assms show ?thesis
      by (cases x) (auto intro!: calmMoveI [of "CbTake 0"])
  next
    case (CbPublish addrs)
    with at assms show ?thesis by (intro calmMoveI [of "CbSkip 0"]) auto
  qed
qed

definition shutDown :: "system \<Rightarrow> bool" where
  "shutDown s \<longleftrightarrow> mainG s = MainExit \<and> svcG s = SvcExit \<and> kvG s = KvExit \<and> callbacks s = [] \<and>
     debounceTimer (res s) \<noteq> Some Armed \<and> \<not> stopping s"

lemma watchers_calm:
  assumes "mainG s = MainWait" and "doneClosed (res s)" and "\<not> panicked s"
    and "\<forall>w d. discovering w s = Some d \<longrightarrow> (\<exists>e. d = DEnd e)"
  shows "calmMove s"
proof (cases "svcG s")
  case (SvcDisc d)
  with assms(4) obtain e where "svcG s = SvcDisc (DEnd e)" by (force dest: spec [of _ Svc])
  with assms show ?thesis by (intro calmMoveI [of SvcFinished]) auto
next
  case SvcExit
  show ?thesis
  proof (cases "kvG s")
    case (KvDisc i d)
    with assms(4) obtain e where "kvG s = KvDisc i (DEnd e)" by (force dest: spec [of _ Kv])
    with assms show ?thesis by (intro calmMoveI [of KvFinished]) auto
  next
    case (KvQueried i)
    obtain r where "watchKVAnswer (\<lambda>_. Inr []) 0 i (Inl (ErrorString [])) (res s) = (KvBackOff, i, r)"
      by (simp add: watchKVAnswer_def Let_def)
    with KvQueried assms show ?thesis
      by (intro calmMoveI [of "KvAnswer (\<lambda>_. Inr []) 0 (Inl (ErrorString []))"]) auto
  qed (use SvcExit assms calmMoveI [of KvTurn s] calmMoveI [of KvWake s] calmMoveI [of CloseUpdates s] in auto)
qed (use assms calmMoveI [of SvcTurn s] calmMoveI [of SvcWake s] in auto)

lemma goes_on_calmly:
  assumes "ctlInv s" and "lockInv s" and "doneClosed (res s)" and "\<not> panicked s" and "\<not> shutDown s"
  shows "calmMove s"
proof (cases "\<exists>w d. discovering w s = Some d \<and> (\<forall>e. d \<noteq> DEnd e) \<and> (\<not> locked s \<or> (\<exists>addrs. d = DPublish addrs))")
  case True
  with assms discover_calm show ?thesis by blast
next
  case False
  with assms(2) have free: "\<not> locked s" unfolding lockInv_def by blast
  with False have ended: "\<forall>w d. discovering w s = Some d \<longrightarrow> (\<exists>e. d = DEnd e)" by blast
  consider c cs where "callbacks s = c # cs" | "debounceTimer (res s) = Some Armed" | "stopping s"
    | "mainG s \<noteq> MainExit"
    using assms(1,5) by (cases "callbacks s") (auto simp: shutDown_def ctlInv_def)
  then show ?thesis
  proof cases
    case 1
    with callback_calm assms free show ?thesis by blast
  next
    case 2
    with assms show ?thesis by (intro calmMoveI [of TimerFires]) auto
  next
    case 3
    with assms free show ?thesis by (intro calmMoveI [of StopTimer]) auto
  next
    case 4
    show ?thesis
    proof (cases "mainG s")
      case MainKV
      with assms free show ?thesis
        by (intro calmMoveI [of "InitialKV (\<lambda>_. Inr []) 0 (Inl (ErrorString []))"]) auto
    next
      case (MainDisc d)
      with ended obtain e where "mainG s = MainDisc (DEnd e)" by (force dest: spec [of _ Main])
      with assms show ?thesis by (intro calmMoveI [of Spawn]) auto
    qed (use 4 watchers_calm assms ended in auto)
  qed
qed

definition stoppedInv :: "system \<Rightarrow> bool" where
  "stoppedInv s \<longleftrightarrow> resolverInv s \<and> lockInv s \<and> doneClosed (res s)"

lemma doneClosed_perform:
  assumes "resolverInv s" and "perform a s = Some t" and "doneClosed (res s)"
  shows "doneClosed (res t)"
  using assms
proof (cases a)
  case (Disc w b)
  have ri: "resInv (res s)" using assms(1) by (simp add: resolverInv_def)
  from Disc assms(2,3) keeps_discover [OF _ ri] show ?thesis
    by (auto simp: sameChannels_def split: option.splits if_splits)
next
  case (InitialKV json dur ans)
  with assms keeps_updateServiceName [of "res s"] show ?thesis
    by (auto simp: resolverInv_def sameChannels_def split: if_splits)
next
  case (KvAnswer json dur ans)
  with assms keeps_watchKV [of "res s"] show ?thesis
    by (fastforce simp: resolverInv_def sameChannels_def split: if_splits kvPC.splits prod.splits kvNext.splits)
next
  case (CbTake k)
  have "sameChannels (res s) (recordAddressUpdate svc r) \<Longrightarrow> doneClosed (recordAddressUpdate svc r)" for svc r
    using assms(3) by (simp add: sameChannels_def)
  with CbTake assms keeps_takePending [of "res s"] show ?thesis
    by (auto simp: resolverInv_def split: if_splits prod.splits option.splits)
next
  case (CbSend k)
  with assms keeps_send [of "res s"] show ?thesis
    by (auto simp: resolverInv_def sameChannels_def split: option.splits callbackPC.splits sendOutcome.splits)
qed (auto split: if_splits option.splits mainPC.splits svcPC.splits kvPC.splits discoverPC.splits
      callbackPC.splits list.splits)

interpretation closing: winding_down resolverStep stoppedInv shutdownLeft "\<lambda>s. \<not> panicked s" shutDown
proof
  fix s t
  assume s: "stoppedInv s"
  then have inv: "resolverInv s" "ctlInv s" "lockInv s" "doneClosed (res s)"
    by (simp_all add: stoppedInv_def resolverInv_def)
  show "resolverStep s t \<Longrightarrow> stoppedInv t"
    using inv resolverInv_perform lockInv_perform doneClosed_perform
    unfolding stoppedInv_def by (blast elim: resolverStepE)
  show "resolverStep s t \<Longrightarrow> shutdownLeft t < shutdownLeft s"
    using inv perform_left by (blast elim: resolverStepE)
  show "\<not> panicked s \<Longrightarrow> \<not> shutDown s \<Longrightarrow> \<exists>t. resolverStep s t \<and> \<not> panicked t"
    using goes_on_calmly [of s] inv unfolding calmMove_def by (blast intro: resolverStep.step)
qed

interpretation locking: step_system startsFresh resolverStep "\<lambda>s. resolverInv s \<and> lockInv s"
proof
  show "startsFresh s \<Longrightarrow> resolverInv s \<and> lockInv s" for s
    using resolverInv_start by (auto simp: lockInv_def startsFresh_def started_def)
  show "resolverInv s \<and> lockInv s \<Longrightarrow> resolverStep s t \<Longrightarrow> resolverInv t \<and> lockInv t" for s t
    using resolverInv_perform lockInv_perform unfolding resolverInv_def by (blast elim: resolverStepE)
qed

section \<open>Property\<close>

text \<open>
  C26: After \<^verbatim>\<open>Stop\<close> has closed \<^verbatim>\<open>doneChan\<close>, in any state a resolver gets to, no run of its goroutines and
  timers is longer than the work that is left; and as long as nothing has panicked there is a
  way to the end in which nothing does: \<^verbatim>\<open>Start\<close> and both watchers have returned, no timer is armed
  or running, and \<^verbatim>\<open>Stop\<close> has returned.
\<close>

theorem stop_terminates:
  assumes "startsFresh s0" and "resolverStep\<^sup>*\<^sup>* s0 s" and "doneClosed (res s)"
  shows "(\<forall>n t. (resolverStep ^^ n) s t \<longrightarrow> n \<le> shutdownLeft s) \<and>
    (\<not> panicked s \<longrightarrow> (\<exists>t. resolverStep\<^sup>*\<^sup>* s t \<and> shutDown t \<and> \<not> panicked t))"
proof -
  have inv: "stoppedInv s"
    using locking.inv_run [OF assms(1,2)] assms(3) by (simp add: stoppedInv_def)
  have "n \<le> shutdownLeft s" if "(resolverStep ^^ n) s t" for n t
    using closing.bounded_run [OF inv that] by simp
  moreover have "\<exists>t. resolverStep\<^sup>*\<^sup>* s t \<and> shutDown t \<and> \<not> panicked t" if "\<not> panicked s"
    using closing.comes_to_rest [OF inv that] by blast
  ultimately show ?thesis by blast
qed

theorem stop_terminates_witness:
  "\<exists>t. resolverStep\<^sup>*\<^sup>* ((started refResolver)\<lparr>res := refResolver\<lparr>doneClosed := True\<rparr>, stopping := True\<rparr>) t \<and>
     shutDown t \<and> \<not> panicked t"
proof -
  let ?s = "(started refResolver)\<lparr>res := refResolver\<lparr>doneClosed := True\<rparr>, stopping := True\<rparr>"
  have "\<not> doneClosed refResolver" by code_simp
  then have "perform StopCalled (started refResolver) = Some ?s" by (simp add: started_def)
  then have "resolverStep\<^sup>*\<^sup>* (started refResolver) ?s"
    using resolverStep.step [of "started refResolver" StopCalled ?s] by (simp add: started_def r_into_rtranclp)
  from stop_terminates [OF startsFresh_refResolver this] show ?thesis by (simp add: started_def)
qed

end
