(* ===== verification/ConsulClient.thy ===== *)
theory ConsulClient
  imports ConsulRun Updates
begin

text \<open>
  The Consul resolver and the client together: the lists that the client receives from the
  update channel in a run of the resolver, where they come from, and what the client that
  watches the channel makes of them.
\<close>

section \<open>What is delivered\<close>

definition receives :: "action \<Rightarrow> system \<Rightarrow> TCPAddress list list" where
  "receives a s = (case a of Receive \<Rightarrow> take 1 (updateChan (res s)) | _ \<Rightarrow> [])"

fun delivered :: "action list \<Rightarrow> system \<Rightarrow> TCPAddress list list" where
  "delivered [] s = []"
| "delivered (a # as) s = (case perform a s of None \<Rightarrow> [] | Some t \<Rightarrow> receives a s @ delivered as t)"

text \<open>Lists on their way: announced, and neither sent nor given up.\<close>

fun discoverOutgoing :: "discoverPC option \<Rightarrow> TCPAddress list multiset" where
  "discoverOutgoing (Some (DPublish addrs)) = {#addrs#}"
| "discoverOutgoing _ = {#}"

fun callbackOutgoing :: "callbackPC \<Rightarrow> TCPAddress list multiset" where
  "callbackOutgoing (CbPublish addrs) = {#addrs#}"
| "callbackOutgoing _ = {#}"

definition outgoing :: "system \<Rightarrow> TCPAddress list multiset" where
  "outgoing s = discoverOutgoing (discovering Main s) + discoverOutgoing (discovering Svc s) +
     discoverOutgoing (discovering Kv s) + sum_list (map callbackOutgoing (callbacks s)) +
     mset (updateChan (res s))"

text \<open>One action gives out only what was on its way or is announced by it.\<close>

definition accounts :: "TCPAddress list multiset \<Rightarrow> system \<Rightarrow> system \<Rightarrow> bool" where
  "accounts got s t \<longleftrightarrow> (\<exists>new lost. mset (announced (res t)) = mset (announced (res s)) + new \<and>
     outgoing s + new = outgoing t + got + lost)"

definition sameNews :: "Resolver \<Rightarrow> Resolver \<Rightarrow> bool" where
  "sameNews r r' \<longleftrightarrow> announced r' = announced r \<and> updateChan r' = updateChan r"

lemma record_news [simp]:
  "sameNews r (recordAPIRequest t b r') = sameNews r r'"
  "sameNews r (recordAPIDuration t d r') = sameNews r r'"
  "sameNews r (recordKVReadError k e r') = sameNews r r'"
  "sameNews r (recordKVValueChange k r') = sameNews r r'"
  "sameNews r (recordAddressUpdate v r') = sameNews r r'"
  "sameNews r (setServiceName n r') = sameNews r r'" "sameNews r r"
  "sameNews r (r'\<lparr>lastIndex := i, lastInstanceCount := m\<rparr>) = sameNews r r'"
  by (simp_all add: sameNews_def record_defs setServiceName_def)

lemma news_updateServiceName: "sameNews r (snd (updateServiceNameFromKV json dur ans r))"
  by (auto simp: updateServiceNameFromKV_def Let_def split: sum.split option.split)

lemma news_discoverAnswer: "discoverAnswer svc dur ans r = (x, r') \<Longrightarrow> sameNews r r'"
  by (auto simp: discoverAnswer_def Let_def split: sum.splits if_splits)

lemma news_watchKV: "watchKVAnswer json dur i ans r = (x, i', r') \<Longrightarrow> sameNews r r'"
  by (auto simp: watchKVAnswer_def Let_def split: sum.splits option.splits if_splits)

lemma news_schedule:
  "scheduleAddressUpdate addrs r = (b, r') \<Longrightarrow>
     announced r' = announced r @ (if b then [addrs] else []) \<and> updateChan r' = updateChan r"
  by (auto simp: scheduleAddressUpdate_def Let_def split: if_splits)

text \<open>A step of \<^verbatim>\<open>discover\<close>.\<close>

lemma news_discover:
  assumes "performDiscover a d (lock, r) = Some (d', lock', r')"
  shows "\<exists>new lost. mset (announced r') = mset (announced r) + new \<and>
    discoverOutgoing (Some d) + mset (updateChan r) + new =
      discoverOutgoing (Some d') + mset (updateChan r') + lost"
  using assms
proof (cases "(a, d, (lock, r))" rule: performDiscover.cases)
  case (2 dur answer svc idx lock r)
  with assms show ?thesis
    by (auto simp: sameNews_def dest!: news_discoverAnswer split: if_splits sum.splits prod.splits)
next
  case (3 svc addrs lock r)
  obtain b r2 where s: "scheduleAddressUpdate addrs r = (b, r2)" by fastforce
  from 3 assms s news_schedule [OF s] show ?thesis
    by (cases b) (auto simp: record_defs split: if_splits)
next
  case (4 addrs lock r)
  with assms show ?thesis
    by (auto simp: sendUpdate_def split: sendOutcome.splits if_splits)
qed (auto simp: Let_def split: if_splits prod.splits)

lemma outgoing_setDiscover:
  assumes "discovering w s = Some d"
  shows "outgoing (setDiscover w d' (s\<lparr>locked := lock, res := r\<rparr>)) + discoverOutgoing (Some d) +
      mset (updateChan (res s)) = outgoing s + discoverOutgoing (Some d') + mset (updateChan r)"
  using assms
  by (cases w) (simp_all add: outgoing_def split: mainPC.splits svcPC.splits kvPC.splits)

lemma accounts_discover:
  assumes "perform (Disc w b) s = Some t"
  shows "accounts {#} s t"
proof (cases "\<exists>d. discovering w s = Some d \<and> sendPanics b d (res s)")
  case True
  then have "t = s\<lparr>panicked := True\<rparr>" using assms by auto
  then show ?thesis by (auto simp: accounts_def outgoing_def)
next
  case False
  with assms obtain d d' lock r where d: "discovering w s = Some d"
      "performDiscover b d (locked s, res s) = Some (d', lock, r)"
      "t = setDiscover w d' (s\<lparr>locked := lock, res := r\<rparr>)"
    by (auto split: option.splits if_splits)
  from news_discover [OF d(2)] obtain new lost where
    new: "mset (announced r) = mset (announced (res s)) + new"
      "discoverOutgoing (Some d) + mset (updateChan (res s)) + new =
         discoverOutgoing (Some d') + mset (updateChan r) + lost" by blast
  have "outgoing s + new + (discoverOutgoing (Some d') + mset (updateChan r)) =
      outgoing t + lost + (discoverOutgoing (Some d') + mset (updateChan r))"
    using outgoing_setDiscover [OF d(1), of d' r lock] new(2) d(3)
    by (metis (no_types, lifting) add.assoc add.commute)
  then have "outgoing s + new = outgoing t + {#} + lost" by simp
  with new(1) d(3) show ?thesis unfolding accounts_def by auto
qed

lemma accounts_same:
  assumes "outgoing t = outgoing s" and "announced (res t) = announced (res s)"
  shows "accounts {#} s t"
  using assms by (auto simp: accounts_def)

text \<open>Actions that only move a goroutine on, or change what is not sent.\<close>

lemma accounts_watchers:
  shows "perform (InitialKV json dur ans) s = Some t \<Longrightarrow> accounts {#} s t"
    and "ctlInv s \<Longrightarrow> perform Spawn s = Some t \<Longrightarrow> accounts {#} s t"
    and "perform CloseUpdates s = Some t \<Longrightarrow> accounts {#} s t"
    and "perform SvcTurn s = Some t \<Longrightarrow> accounts {#} s t"
    and "perform SvcFinished s = Some t \<Longrightarrow> accounts {#} s t"
    and "perform SvcWake s = Some t \<Longrightarrow> accounts {#} s t"
    and "perform KvTurn s = Some t \<Longrightarrow> accounts {#} s t"
    and "perform KvFinished s = Some t \<Longrightarrow> accounts {#} s t"
    and "perform KvWake s = Some t \<Longrightarrow> accounts {#} s t"
    and "perform StopCalled s = Some t \<Longrightarrow> accounts {#} s t"
    and "perform StopTimer s = Some t \<Longrightarrow> accounts {#} s t"
    and "perform TimerFires s = Some t \<Longrightarrow> accounts {#} s t"
  using news_updateServiceName [of "res s" json dur ans]
  by (auto intro!: accounts_same simp: outgoing_def ctlInv_def sameNews_def
      split: if_splits mainPC.splits svcPC.splits kvPC.splits discoverPC.splits)

lemma accounts_kvAnswer:
  assumes "perform (KvAnswer json dur ans) s = Some t"
  shows "accounts {#} s t"
proof -
  obtain i where kv: "kvG s = KvQueried i" using assms by (cases "kvG s") simp_all
  obtain nx i' r where answer: "watchKVAnswer json dur i ans (res s) = (nx, i', r)"
    by (metis prod_cases3)
  from assms kv answer news_watchKV [OF answer] show ?thesis
    by (cases nx) (auto intro!: accounts_same simp: outgoing_def sameNews_def split: if_splits)
qed

lemma outgoing_drop:
  assumes "callbackAt k s = Some c"
  shows "outgoing (dropCallback k s) + callbackOutgoing c = outgoing s"
  using arg_cong [OF callbacks_split [OF assms], of "\<lambda>cs. sum_list (map callbackOutgoing cs)"]
  by (simp add: outgoing_def) (simp add: dropCallback_def ac_simps)

lemma accounts_drop: "callbackAt k s = Some c \<Longrightarrow> accounts {#} s (dropCallback k s)"
  using outgoing_drop [of k s c] unfolding accounts_def
  by (intro exI [of _ "{#}"] exI [of _ "callbackOutgoing c"]) simp

lemma outgoing_update:
  assumes "callbackAt k s = Some c"
  shows "outgoing (s\<lparr>res := r, callbacks := (callbacks s)[k := c']\<rparr>) + callbackOutgoing c +
      mset (updateChan (res s)) = outgoing s + callbackOutgoing c' + mset (updateChan r)"
  using arg_cong [OF callbacks_split [OF assms], of "\<lambda>cs. sum_list (map callbackOutgoing cs)"] assms
  by (simp add: outgoing_def callbackAt_Some upd_conv_take_nth_drop ac_simps)

lemma outgoing_sent:
  "outgoing (s\<lparr>res := r\<rparr>) + mset (updateChan (res s)) = outgoing s + mset (updateChan r)"
  by (simp add: outgoing_def)

lemma accounts_callback:
  shows "perform (CbCheck k) s = Some t \<Longrightarrow> accounts {#} s t"
    and "perform (CbTake k) s = Some t \<Longrightarrow> accounts {#} s t"
    and "perform (CbSend k) s = Some t \<Longrightarrow> accounts {#} s t"
    and "perform (CbSkip k) s = Some t \<Longrightarrow> accounts {#} s t"
proof -
  have "accounts {#} s (s\<lparr>callbacks := (callbacks s)[k := CbChecked]\<rparr>)" if "callbackAt k s = Some CbStarted"
    using outgoing_update [OF that, where r = "res s" and c' = CbChecked] by (intro accounts_same) simp_all
  then show "perform (CbCheck k) s = Some t \<Longrightarrow> accounts {#} s t"
    using accounts_drop by (auto split: if_splits)
  show "perform (CbSkip k) s = Some t \<Longrightarrow> accounts {#} s t"
    using accounts_drop by (auto split: option.splits callbackPC.splits if_splits)
  have take: "accounts {#} s (s\<lparr>res := r, callbacks := (callbacks s)[k := CbPublish addrs]\<rparr>)"
    if "callbackAt k s = Some CbChecked" "announced r = announced (res s) @ [addrs]"
      "updateChan r = updateChan (res s)" for r addrs
    unfolding accounts_def using outgoing_update [OF that(1), where r = r and c' = "CbPublish addrs"] that(2,3)
    by (intro exI [of _ "{#addrs#}"] exI [of _ "{#}"]) simp
  show "perform (CbTake k) s = Some t \<Longrightarrow> accounts {#} s t"
    using accounts_drop [of k s CbChecked]
    by (auto intro!: take simp: takePending_def record_defs split: option.splits if_splits prod.splits)
  assume run: "perform (CbSend k) s = Some t"
  then obtain addrs where cb: "callbackAt k s = Some (CbPublish addrs)"
    by (auto split: option.splits callbackPC.splits)
  show "accounts {#} s t"
  proof (cases "updateClosed (res s)")
    case True
    with run cb have "t = s\<lparr>panicked := True\<rparr>" by (simp add: sendUpdate_def)
    then show ?thesis by (intro accounts_same) (simp_all add: outgoing_def)
  next
    case False
    let ?r = "(res s)\<lparr>updateChan := updateChan (res s) @ [addrs]\<rparr>"
    from False run cb have t: "t = dropCallback k (s\<lparr>res := ?r\<rparr>)"
      by (auto simp: sendUpdate_def split: if_splits)
    have "callbackAt k (s\<lparr>res := ?r\<rparr>) = Some (CbPublish addrs)" using cb by (simp add: callbackAt_Some)
    from outgoing_drop [OF this] outgoing_sent [where s = s and r = ?r] t show ?thesis
      by (intro accounts_same) simp_all
  qed
qed

lemma accounts_receive:
  assumes "perform Receive s = Some t"
  shows "accounts (mset (receives Receive s)) s t"
proof -
  obtain a rest where a: "updateChan (res s) = a # rest" "t = s\<lparr>res := (res s)\<lparr>updateChan := rest\<rparr>\<rparr>"
    using assms by (auto split: list.splits)
  then have "outgoing t + {#a#} = outgoing s" using outgoing_sent [where s = s and r = "(res s)\<lparr>updateChan := rest\<rparr>"] by simp
  with a show ?thesis unfolding accounts_def
    by (intro exI [of _ "{#}"]) (simp add: receives_def)
qed

lemma accounts_perform:
  assumes "ctlInv s" and "perform a s = Some t"
  shows "accounts (mset (receives a s)) s t"
  using assms accounts_discover accounts_watchers accounts_kvAnswer accounts_callback accounts_receive
  by (cases a) (simp_all only: receives_def action.case mset.simps(1))

lemma delivered_accounts:
  assumes "performs as s = Some t" and "resolverInv s"
  shows "mset (delivered as s) + outgoing t + mset (announced (res s)) \<subseteq># outgoing s + mset (announced (res t))"
  using assms
proof (induction "as" arbitrary: s)
  case (Cons a "as")
  then obtain u where u: "perform a s = Some u" "performs as u = Some t" by (auto split: option.splits)
  have "resolverInv u" using resolverInv_perform Cons.prems(2) u(1) by blast
  with Cons.IH u(2) have ih: "mset (delivered as u) + outgoing t + mset (announced (res u)) \<subseteq>#
      outgoing u + mset (announced (res t))" by blast
  have "accounts (mset (receives a s)) s u"
    using accounts_perform u(1) Cons.prems(2) by (simp add: resolverInv_def)
  then obtain new lost where acc: "mset (announced (res u)) = mset (announced (res s)) + new"
      "outgoing s + new = outgoing u + mset (receives a s) + lost"
    unfolding accounts_def by blast
  have "count (mset (delivered (a # as) s) + outgoing t + mset (announced (res s))) x \<le>
      count (outgoing s + mset (announced (res t))) x" for x
    using mset_subset_eq_count [OF ih, of x] arg_cong [OF acc(1), of "\<lambda>m. count m x"]
      arg_cong [OF acc(2), of "\<lambda>m. count m x"] u(1)
    by (simp del: count_mset)
  then show ?case by (rule mset_subset_eqI)
qed simp

lemma startsFresh_quiet: "startsFresh s \<Longrightarrow> outgoing s = {#} \<and> announced (res s) = []"
  by (auto simp: startsFresh_def started_def outgoing_def dest!: NewResolver_state)

lemma delivered_announced:
  assumes "startsFresh s" and "performs as s = Some t"
  shows "mset (delivered as s) + outgoing t \<subseteq># mset (announced (res t))"
  using delivered_accounts [OF assms(2) resolverInv_start [OF assms(1)]] startsFresh_quiet [OF assms(1)]
  by simp

section \<open>A client that watches\<close>

text \<open>The client after the updates of a channel, one after the other.\<close>

definition watched :: "ext \<Rightarrow> TCPAddress list list \<Rightarrow> ('v, 'x) client_scheme \<Rightarrow> ('v, 'x) client_scheme" where
  "watched E updates c =
     snd (watchAddressUpdates newHandlers (map (\<lambda>addrs. (E, ResolverUpdate addrs)) updates) c)"

lemma watched_simps [simp]:
  "watched E [] c = c"
  "watched E (addrs # us) c = watched E us (snd (attemptConnections newHandlers E addrs c))"
  by (simp_all add: watched_def)

lemma watched_append [simp]: "watched E (us @ vs) c = watched E vs (watched E us c)"
  by (induction us arbitrary: c) simp_all

lemma update_keeps:
  assumes "ext_ok E" and "wfClient c" and "multiConnectionMode (options c)"
  shows "wfClient (snd (attemptConnections newHandlers E addrs c))"
    and "multiConnectionMode (options (snd (attemptConnections newHandlers E addrs c)))"
proof -
  show "wfClient (snd (attemptConnections newHandlers E addrs c))"
    using okSubscriber_newHandlers assms(1,2) by (rule wfClient_attemptConnections)
  obtain cl c2 where mc: "multipleClients E addrs c = (cl, c2)" by fastforce
  have "sameShape (reloadClients E cl c2) (snd (attemptConnections newHandlers E addrs c))"
    by (rule attemptConnections_multi [OF assms(3) mc refl])
  with multi_update_fields(1) [OF assms(1) mc] assms(3)
  show "multiConnectionMode (options (snd (attemptConnections newHandlers E addrs c)))"
    by (simp add: sameShape_fields(1))
qed

lemma watched_keeps:
  assumes "ext_ok E" and "wfClient c" and "multiConnectionMode (options c)"
  shows "wfClient (watched E us c) \<and> multiConnectionMode (options (watched E us c))"
  using assms(2,3) by (induction us arbitrary: c) (simp_all add: update_keeps [OF assms(1)])

lemma watched_empty:
  assumes "ext_ok E" and "wfClient c" and "multiConnectionMode (options c)" and "\<forall>v\<in>set vs. v = []"
  shows "rotationClients (watched E vs c) = rotationClients c"
  using assms(2-)
proof (induction vs arbitrary: c)
  case (Cons v vs)
  obtain c1 clients where att: "attempted E [] c = (c1, clients)" by fastforce
  then have "clients = []" using attempted_props(3) [OF assms(1) att] by simp
  with update_unconnected(1) [OF assms(1) Cons.prems(2) att refl]
  show ?case
    using Cons.IH [OF update_keeps [OF assms(1) Cons.prems(1,2), of "[]"]] Cons.prems(3) by simp
qed simp

lemma update_reachable_brokers:
  assumes "ext_ok E" and "wfClient c" and "multiConnectionMode (options c)"
    and "\<forall>tr m. isConnectionOpen E tr m" and "addrs \<noteq> []"
  shows "length (rotationClients (snd (attemptConnections newHandlers E addrs c))) = length addrs"
proof -
  obtain c1 clients where att: "attempted E addrs c = (c1, clients)" by fastforce
  have len: "length clients = length addrs" using attempted_props(3) [OF assms(1) att] .
  with assms(4,5) have "\<exists>e\<in>set clients. isConnectionOpen E (trace c1) (snd e)"
    by (cases clients) auto
  from update_connected(1) [OF assms(1-3) att refl this] len show ?thesis
    by (metis length_map mset_eq_length)
qed

section \<open>Properties\<close>


definition firstRun :: "action list" where
  "firstRun =
     [InitialKV refName 0 (named ''a''), Disc Main Query, Disc Main (ServiceAnswer 0 (instanceOf ''ha'')),
      Disc Main Schedule, Spawn, TimerFires, CbCheck 0, CbTake 0, CbSend 0, Receive]"


text \<open>
  A run in which a timer's function with the older list is overtaken by one with the newer list.
\<close>

definition overtakeRun :: "action list" where
  "overtakeRun =
     [InitialKV refName 0 (named ''a''), Disc Main Query, Disc Main (ServiceAnswer 0 (instanceOf ''ha'')),
      Disc Main Schedule, Spawn, TimerFires, CbCheck 0, CbTake 0,
      SvcTurn, Disc Svc Query, Disc Svc (ServiceAnswer 0 (instanceOf ''hb'')), Disc Svc Schedule,
      SvcFinished, TimerFires, CbCheck 1, CbTake 1, CbSend 1, Receive, CbSend 0, Receive,
      SvcTurn, Disc Svc Query, Disc Svc (ServiceAnswer 0 (instanceOf ''hb'')), Disc Svc Schedule]"


end
