(* ===== verification/OTelOptions.thy ===== *)
theory OTelOptions
  imports Lifecycle Attributes
begin

text \<open>
  The options of the OpenTelemetry instrumentation (\<^verbatim>\<open>otelcourier/options.go\<close>), its construction and
  its recorders (\<^verbatim>\<open>otelcourier/otel.go\<close>, \<^verbatim>\<open>otelcourier/metric.go\<close>). The trace paths are the bits of an
  unsigned integer; the default histogram boundaries are one map that all instances share.
\<close>

unbundle bit_operations_syntax

section \<open>Trace paths\<close>

type_synonym tracePath = "64 word"

definition tracePublisher :: tracePath where "tracePublisher = push_bit 0 1"
definition traceSubscriber :: tracePath where "traceSubscriber = push_bit 1 1"
definition traceUnsubscriber :: tracePath where "traceUnsubscriber = push_bit 2 1"
definition traceCallback :: tracePath where "traceCallback = push_bit 3 1"

lemmas tracePath_defs = tracePublisher_def traceSubscriber_def traceUnsubscriber_def traceCallback_def

definition match :: "tracePath \<Rightarrow> tracePath \<Rightarrow> bool" where
  "match tp p \<longleftrightarrow> tp AND p \<noteq> 0"

section \<open>Options\<close>

text \<open>A \<^verbatim>\<open>float64\<close> that is only passed on is its bits.\<close>

type_synonym float64 = "64 word"

text \<open>
  Providers, carriers and handlers are named by references. \<open>histogramBoundaries\<close> is the content
  of the map the field points to.
\<close>

record otelOptions =
  oTracerProvider :: ref
  oMeterProvider :: ref
  oPropagator :: ref
  oTextMapCarrierExtractor :: "ref option"
  oTracePaths :: tracePath
  oTopicTransformer :: "gocontext \<Rightarrow> string \<Rightarrow> string"
  oInfoHandler :: "ref option"
  histogramBoundaries :: "(tracePath, float64 list) gomap"
  oAttributes :: attrs

type_synonym otelOption = "otelOptions \<Rightarrow> otelOptions"

definition WithTracerProvider :: "ref \<Rightarrow> otelOption" where
  "WithTracerProvider provider o1 = o1\<lparr>oTracerProvider := provider\<rparr>"

definition WithMeterProvider :: "ref \<Rightarrow> otelOption" where
  "WithMeterProvider provider o1 = o1\<lparr>oMeterProvider := provider\<rparr>"

definition WithTextMapPropagator :: "ref \<Rightarrow> otelOption" where
  "WithTextMapPropagator propagator o1 = o1\<lparr>oPropagator := propagator\<rparr>"

definition WithTextMapCarrierExtractFunc :: "ref option \<Rightarrow> otelOption" where
  "WithTextMapCarrierExtractFunc fn o1 = o1\<lparr>oTextMapCarrierExtractor := fn\<rparr>"

definition WithInfoHandlerFrom :: "ref option \<Rightarrow> otelOption" where
  "WithInfoHandlerFrom h o1 = o1\<lparr>oInfoHandler := h\<rparr>"

definition WithAttributes :: "attrs \<Rightarrow> otelOption" where
  "WithAttributes attrs o1 = o1\<lparr>oAttributes := attrs\<rparr>"

definition disableTracePathOpt :: "tracePath \<Rightarrow> otelOption" where
  "disableTracePathOpt tp o1 = o1\<lparr>oTracePaths := oTracePaths o1 AND NOT tp\<rparr>"

definition DisableCallbackTracing :: otelOption where
  "DisableCallbackTracing = disableTracePathOpt traceCallback"

definition DisablePublisherTracing :: otelOption where
  "DisablePublisherTracing = disableTracePathOpt tracePublisher"

definition DisableSubscriberTracing :: otelOption where
  "DisableSubscriberTracing = disableTracePathOpt traceSubscriber"

definition DisableUnsubscriberTracing :: otelOption where
  "DisableUnsubscriberTracing = disableTracePathOpt traceUnsubscriber"

definition DefaultTopicAttributeTransformer :: "gocontext \<Rightarrow> string \<Rightarrow> string" where
  "DefaultTopicAttributeTransformer ctx topic = topic"

definition TopicAttributeTransformer :: "(gocontext \<Rightarrow> string \<Rightarrow> string) \<Rightarrow> otelOption" where
  "TopicAttributeTransformer t o1 = o1\<lparr>oTopicTransformer := t\<rparr>"

record BucketBoundaries =
  bbPublisher :: "float64 list option"
  bbSubscriber :: "float64 list option"
  bbUnsubscriber :: "float64 list option"
  bbCallback :: "float64 list option"

definition setBoundaries ::
  "tracePath \<Rightarrow> float64 list option \<Rightarrow> otelOptions \<Rightarrow> otelOptions" where
  "setBoundaries path b o1 = (case b of
       None \<Rightarrow> o1
     | Some bs \<Rightarrow> o1\<lparr>histogramBoundaries := AList.update path bs (histogramBoundaries o1)\<rparr>)"

definition BucketBoundaries_apply :: "BucketBoundaries \<Rightarrow> otelOption" where
  "BucketBoundaries_apply b o1 =
     (let o1 = setBoundaries tracePublisher (bbPublisher b) o1;
          o1 = setBoundaries traceSubscriber (bbSubscriber b) o1;
          o1 = setBoundaries traceUnsubscriber (bbUnsubscriber b) o1
      in setBoundaries traceCallback (bbCallback b) o1)"

section \<open>The package's variables\<close>

text \<open>
  The global providers of OpenTelemetry, and the variable \<^verbatim>\<open>defBucketBoundaries\<close>, whose initial
  content is computed by a third-party function.
\<close>

record otelGlobals =
  globalTracerProvider :: ref
  globalMeterProvider :: ref
  globalPropagator :: ref
  defBucketBoundaries :: "(tracePath, float64 list) gomap"

definition metricFlows :: "(tracePath, string) gomap" where
  "metricFlows =
     [(tracePublisher, ''publish''), (traceSubscriber, ''subscribe''),
      (traceUnsubscriber, ''unsubscribe''), (traceCallback, ''subscribe.callback'')]"

definition defaultOptions :: "otelGlobals \<Rightarrow> otelOptions" where
  "defaultOptions G =
     \<lparr>oTracerProvider = globalTracerProvider G, oMeterProvider = globalMeterProvider G,
      oPropagator = globalPropagator G, oTextMapCarrierExtractor = None,
      oTracePaths = tracePublisher + traceSubscriber + traceUnsubscriber + traceCallback,
      oTopicTransformer = DefaultTopicAttributeTransformer, oInfoHandler = None,
      histogramBoundaries = defBucketBoundaries G, oAttributes = []\<rparr>"

section \<open>Recorders\<close>

text \<open>The instruments of a flow, by name; the histogram with its boundaries.\<close>

record recorders =
  attempts :: string
  failures :: string
  latency :: "string \<times> float64 list"

type_synonym recorder = "(tracePath, recorders) gomap"

record OTel =
  service :: string
  tracePaths :: tracePath
  tracerProvider :: ref
  propagator :: ref
  textMapCarrierFunc :: "ref option"
  topicTransformer :: "gocontext \<Rightarrow> string \<Rightarrow> string"
  infoHandler :: "ref option"
  rc :: recorder
  attributes :: attrs

text \<open>\<^verbatim>\<open>panic(err)\<close> is \<^const>\<open>Inl\<close>.\<close>

definition newRecorder :: "meterlib \<Rightarrow> string \<Rightarrow> float64 list \<Rightarrow> goerror + recorders" where
  "newRecorder M flow boundaries =
     (let an = ''courier.'' @ flow @ ''.attempts''; fn = ''courier.'' @ flow @ ''.failures'';
          ln = ''courier.'' @ flow @ ''.latency''
      in case createInstrument M an of Some e \<Rightarrow> Inl e
       | None \<Rightarrow> (case createInstrument M fn of Some e \<Rightarrow> Inl e
       | None \<Rightarrow> (case createInstrument M ln of Some e \<Rightarrow> Inl e
       | None \<Rightarrow> Inr \<lparr>attempts = an, failures = fn, latency = (ln, boundaries)\<rparr>)))"

definition boundariesAt :: "(tracePath, float64 list) gomap \<Rightarrow> tracePath \<Rightarrow> float64 list" where
  "boundariesAt bs path = (case map_of bs path of Some b \<Rightarrow> b | None \<Rightarrow> [])"

fun recordersLoop ::
  "meterlib \<Rightarrow> (tracePath, float64 list) gomap \<Rightarrow> (tracePath \<times> string) list \<Rightarrow> OTel \<Rightarrow> goerror + OTel" where
  "recordersLoop M bs [] t = Inr t"
| "recordersLoop M bs ((path, flow) # rest) t =
     (if \<not> match (tracePaths t) path then recordersLoop M bs rest t
      else case newRecorder M flow (boundariesAt bs path) of
             Inl e \<Rightarrow> Inl e
           | Inr r \<Rightarrow> recordersLoop M bs rest (t\<lparr>rc := AList.update path r (rc t)\<rparr>))"

text \<open>The name of the up-down counter carries the time; the registration is the meter's.\<close>

definition initInfoHandler :: "meterlib \<Rightarrow> nat \<Rightarrow> ref \<Rightarrow> goerror + ref" where
  "initInfoHandler M unixNano registration =
     (case createInstrument M (''courier.mqtt.'' @ dec unixNano @ ''.connected'') of
        Some e \<Rightarrow> Inl e
      | None \<Rightarrow> (case registerCallback M of Some e \<Rightarrow> Inl e | None \<Rightarrow> Inr registration))"

text \<open>With the value of the field \<^verbatim>\<open>infoHandlerRegistration\<close>.\<close>

definition initRecorders ::
  "meterlib \<Rightarrow> nat \<Rightarrow> ref \<Rightarrow> (tracePath list \<Rightarrow> tracePath list) \<Rightarrow> (tracePath, float64 list) gomap \<Rightarrow>
   OTel \<Rightarrow> goerror + OTel \<times> ref option" where
  "initRecorders M unixNano registration ord bs t =
     (case recordersLoop M bs (mapEntries ord metricFlows) t of
        Inl e \<Rightarrow> Inl e
      | Inr t \<Rightarrow>
          (if infoHandler t \<noteq> None
           then (case initInfoHandler M unixNano registration of
                   Inl e \<Rightarrow> Inl e | Inr r \<Rightarrow> Inr (t, Some r))
           else Inr (t, None)))"

text \<open>
  \<^verbatim>\<open>histogramBoundaries\<close> of the options is the very map of the variable \<^verbatim>\<open>defBucketBoundaries\<close>: what the
  options write to it stays there. \<open>meterOf\<close> gives the meter of a provider.
\<close>

definition New ::
  "(ref \<Rightarrow> meterlib) \<Rightarrow> nat \<Rightarrow> ref \<Rightarrow> (tracePath list \<Rightarrow> tracePath list) \<Rightarrow> string \<Rightarrow> otelOption list \<Rightarrow>
   otelGlobals \<Rightarrow> (goerror + OTel \<times> ref option) \<times> otelGlobals" where
  "New meterOf unixNano registration ord svc opts G =
     (let o1 = fold (\<lambda>opt. opt) opts (defaultOptions G);
          G = G\<lparr>defBucketBoundaries := histogramBoundaries o1\<rparr>;
          t = \<lparr>service = svc, tracePaths = oTracePaths o1, tracerProvider = oTracerProvider o1,
               propagator = oPropagator o1, textMapCarrierFunc = oTextMapCarrierExtractor o1,
               topicTransformer = oTopicTransformer o1, infoHandler = oInfoHandler o1,
               rc = [], attributes = oAttributes o1\<rparr>
      in (initRecorders (meterOf (oMeterProvider o1)) unixNano registration ord (histogramBoundaries o1) t, G))"

section \<open>Lemmas\<close>

text \<open>The four paths are different single bits.\<close>

lemma tracePath_values:
  "tracePublisher = 1" "traceSubscriber = 2" "traceUnsubscriber = 4" "traceCallback = 8"
  by (simp_all add: tracePath_defs)

lemma match_defaultOptions [simp]:
  "match (oTracePaths (defaultOptions G)) tracePublisher" "match (oTracePaths (defaultOptions G)) traceSubscriber"
  "match (oTracePaths (defaultOptions G)) traceUnsubscriber" "match (oTracePaths (defaultOptions G)) traceCallback"
  by (simp_all add: defaultOptions_def match_def tracePath_values)

lemma match_cleared [simp]: "\<not> match (tp AND NOT p) p"
  by (simp add: match_def and.assoc)

lemma match_cleared_other:
  assumes "p AND q = 0"
  shows "match (tp AND NOT p) q \<longleftrightarrow> match tp q"
proof -
  have "NOT p AND q = q"
    using assms by (auto simp: bit_eq_iff bit_and_iff bit_not_iff possible_bit_word)
  then show ?thesis by (simp add: match_def and.assoc)
qed

lemma recordersLoop_fields:
  assumes "recordersLoop M bs fs t = Inr t'"
  shows "tracePaths t' = tracePaths t \<and> service t' = service t \<and> infoHandler t' = infoHandler t \<and>
     attributes t' = attributes t \<and> topicTransformer t' = topicTransformer t"
  using assms
  by (induction M bs fs t rule: recordersLoop.induct) (auto split: if_splits sum.splits)

lemma newRecorder_Inr:
  "newRecorder M flow bs = Inr r \<Longrightarrow> attempts r = ''courier.'' @ flow @ ''.attempts'' \<and>
     failures r = ''courier.'' @ flow @ ''.failures'' \<and> latency r = (''courier.'' @ flow @ ''.latency'', bs)"
  by (auto simp: newRecorder_def Let_def split: option.splits)

text \<open>The recorders of an instance: those of the flows whose bit is set.\<close>

lemma recordersLoop_rc:
  assumes "recordersLoop M bs fs t = Inr t'" and "distinct_keys fs" and "distinct_keys (rc t)"
  shows "map_of (rc t') p =
     (case map_of fs p of
        Some flow \<Rightarrow> if match (tracePaths t) p
                     then Some \<lparr>attempts = ''courier.'' @ flow @ ''.attempts'',
                       failures = ''courier.'' @ flow @ ''.failures'',
                       latency = (''courier.'' @ flow @ ''.latency'', boundariesAt bs p)\<rparr>
                     else map_of (rc t) p
      | None \<Rightarrow> map_of (rc t) p)"
  using assms
proof (induction M bs fs t rule: recordersLoop.induct)
  case (1 M bs t)
  then show ?case by simp
next
  case (2 M bs path flow rest t)
  show ?case
  proof (cases "match (tracePaths t) path")
    case False
    then show ?thesis
      using "2.IH"(1) "2.prems" by (auto split: option.split simp: map_of_eq_None_iff)
  next
    case True
    then obtain r where r: "newRecorder M flow (boundariesAt bs path) = Inr r"
        "recordersLoop M bs rest (t\<lparr>rc := AList.update path r (rc t)\<rparr>) = Inr t'"
      using "2.prems"(1) by (auto split: sum.splits)
    have "r = \<lparr>attempts = ''courier.'' @ flow @ ''.attempts'', failures = ''courier.'' @ flow @ ''.failures'',
        latency = (''courier.'' @ flow @ ''.latency'', boundariesAt bs path)\<rparr>"
      using r(1) by (auto simp: newRecorder_def Let_def split: option.splits)
    moreover have "path \<notin> set (map fst rest)" using "2.prems"(2) by simp
    then have "map_of rest path = None" by (simp add: map_of_eq_None_iff)
    ultimately show ?thesis
      using "2.IH"(2) [OF _ r] "2.prems"(2,3) True
      by (auto simp: distinct_update gm.lookup_update split: option.split)
  qed
qed

end
