(* ===== verification/OTel.thy ===== *)
theory OTel
  imports OTelOptions Telemetry
begin

text \<open>
  The middlewares of the OpenTelemetry instrumentation (\<^verbatim>\<open>otelcourier/publish.go\<close>, \<^verbatim>\<open>subscribe.go\<close>,
  \<^verbatim>\<open>unsubscribe.go\<close>, \<^verbatim>\<open>stop.go\<close>, \<^verbatim>\<open>info_handler.go\<close>, and \<^verbatim>\<open>ApplyMiddlewares\<close> with the configuration gauges of
  \<^verbatim>\<open>metric.go\<close>). They wrap the handlers of a client whose state is extended by what was sent to
  the tracer and the meter, in order. A span does not change what the package reads of a
  context.
\<close>

section \<open>The instrumented client\<close>

datatype spanKind = SpanKindProducer | SpanKindClient | SpanKindInternal

datatype otelEvent =
    SpanStart string spanKind attrs
  | SpanRecordError goerror
  | SpanSetError string
  | SpanEnd
  | InstrumentAdd string attrs
  | InstrumentRecord string int attrs
  | Unregister ref

record 'v instrumented = "'v client" +
  telemetry :: "otelEvent list"
  infoHandlerRegistration :: "ref option"

definition emit :: "otelEvent list \<Rightarrow> 'v instrumented \<Rightarrow> 'v instrumented" where
  "emit evs c = c\<lparr>telemetry := telemetry c @ evs\<rparr>"

text \<open>
  What third-party code and the runtime contribute: the reference of the closure a call makes,
  a message that is a \<^verbatim>\<open>TextMapCarrier\<close> after \<^verbatim>\<open>Inject\<close>, the time a call took, the context after
  \<^verbatim>\<open>Extract\<close>, the name of a handler's function, whether a span that was read back has the
  status of an error, the error of \<^verbatim>\<open>Unregister\<close>.
\<close>

record 'v otelenv =
  closureRef :: "event list \<Rightarrow> ref"
  injected :: "'v \<Rightarrow> 'v option"
  elapsed :: "event list \<Rightarrow> int"
  extracted :: "ref \<Rightarrow> gocontext \<Rightarrow> gocontext"
  funcName :: "MessageHandler \<Rightarrow> string option"
  spanFailed :: "otelEvent list \<Rightarrow> bool"
  unregister :: "ref \<Rightarrow> err"

section \<open>Recording\<close>

definition incAttempt :: "recorder \<Rightarrow> tracePath \<Rightarrow> attrs \<Rightarrow> 'v instrumented \<Rightarrow> 'v instrumented" where
  "incAttempt r path as c = (case map_of r path of
       None \<Rightarrow> c | Some rs \<Rightarrow> emit [InstrumentAdd (attempts rs) as] c)"

definition incFailure :: "recorder \<Rightarrow> tracePath \<Rightarrow> attrs \<Rightarrow> 'v instrumented \<Rightarrow> 'v instrumented" where
  "incFailure r path as c = (case map_of r path of
       None \<Rightarrow> c | Some rs \<Rightarrow> emit [InstrumentAdd (failures rs) as] c)"

definition recordLatency ::
  "recorder \<Rightarrow> tracePath \<Rightarrow> int \<Rightarrow> attrs \<Rightarrow> 'v instrumented \<Rightarrow> 'v instrumented" where
  "recordLatency r path d as c = (case map_of r path of
       None \<Rightarrow> c | Some rs \<Rightarrow> emit [InstrumentRecord (fst (latency rs)) d as] c)"

definition mapAttributes :: "Option list \<Rightarrow> attrs" where
  "mapAttributes opts = map (\<lambda>opt. case opt of
       QOSOption q \<Rightarrow> (MQTTQoS, AInt (uint q)) | Retained r \<Rightarrow> (MQTTRetained, ABool r)) opts"

text \<open>
  The arguments the closure \<open>cb\<close> was called with since the trace was \<open>before\<close>, and the last one
  that is not empty: the closure ignores the empty identifier and otherwise replaces the
  attributes.
\<close>

definition callbackIDs :: "ref \<Rightarrow> event list \<Rightarrow> event list \<Rightarrow> string list" where
  "callbackIDs cb before after = List.map_filter (\<lambda>ev. case ev of
       ClientIDCallback r i \<Rightarrow> if r = cb then Some i else None | _ \<Rightarrow> None)
     (drop (length before) after)"

definition lastID :: "string list \<Rightarrow> string option" where
  "lastID ids = fold (\<lambda>i acc. if i \<noteq> [] then Some i else acc) ids None"

section \<open>Publishing\<close>

definition publishSpanName :: string where "publishSpanName = ''otelcourier.Publish''"
definition publishErrMessage :: string where "publishErrMessage = ''publish error''"

text \<open>A deferred function runs when the call returns, and when it panics.\<close>

definition PublisherMiddleware ::
  "'v otelenv \<Rightarrow> OTel \<Rightarrow> ('v, 'v instrumented) Publisher \<Rightarrow> ('v, 'v instrumented) Publisher" where
  "PublisherMiddleware V t next E ctx topic message opts c =
     (let base = [(ServiceNameKey, AString (service t))] @ mapAttributes opts @ attributes t;
          cb = closureRef V (trace c);
          cctx = WithClientIDCallback ctx (Some cb);
          c1 = emit [SpanStart publishSpanName SpanKindProducer (base @ [(MQTTTopic, AString topic)])] c;
          carried = (case injected V message of Some m \<Rightarrow> m | None \<Rightarrow> message);
          (r, c2) = next E cctx topic carried opts c1;
          metricAttrs = (case lastID (callbackIDs cb (trace c) (trace c2)) of
              None \<Rightarrow> base @ [(MQTTTopic, AString (topicTransformer t ctx topic))]
            | Some i \<Rightarrow> base @ [(MQTTTopic, AString (topicTransformer t cctx topic)), (MQTTClientID, AString i)]);
          finish = (\<lambda>c. recordLatency (rc t) tracePublisher (elapsed V (trace c)) metricAttrs (emit [SpanEnd] c))
      in case r of
           Return None \<Rightarrow> (r, finish (incAttempt (rc t) tracePublisher metricAttrs c2))
         | Return (Some e) \<Rightarrow>
             (r, finish (incAttempt (rc t) tracePublisher metricAttrs
                   (incFailure (rc t) tracePublisher metricAttrs
                     (emit [SpanRecordError e, SpanSetError publishErrMessage] c2))))
         | Panic p \<Rightarrow> (r, finish c2)
         | Blocked \<Rightarrow> (r, c2))"

section \<open>Callbacks\<close>

text \<open>
  \<^verbatim>\<open>^(?P<module>.+?)/(?P<pkg>[^/.]+)\.(?P<fn>.+)$\<close>: the module is the shortest non-empty prefix that
  ends before a slash such that a package and a function follow.
\<close>

definition pkgAndFn :: "string \<Rightarrow> (string \<times> string) option" where
  "pkgAndFn s =
     (let pkg = takeWhile (\<lambda>x. x \<noteq> CHR ''/'' \<and> x \<noteq> CHR ''.'') s; rest = dropWhile (\<lambda>x. x \<noteq> CHR ''/'' \<and> x \<noteq> CHR ''.'') s
      in case rest of
           CHR ''.'' # fn \<Rightarrow> (if pkg \<noteq> [] \<and> fn \<noteq> [] \<and> CHR 0x0A \<notin> set fn then Some (pkg, fn) else None)
         | _ \<Rightarrow> None)"

fun runtimeCallbackExtractor :: "string \<Rightarrow> string \<Rightarrow> (string \<times> string \<times> string) option" where
  "runtimeCallbackExtractor module [] = None"
| "runtimeCallbackExtractor module (x # xs) =
     (case (if x = CHR ''/'' \<and> module \<noteq> [] then pkgAndFn xs else None) of
        Some (pkg, fn) \<Rightarrow> Some (module, pkg, fn)
      | None \<Rightarrow> if x = CHR 0x0A then None else runtimeCallbackExtractor (module @ [x]) xs)"

text \<open>The span name, the package and the function of a handler.\<close>

definition callbackNames :: "string option \<Rightarrow> string \<times> string \<times> string" where
  "callbackNames fullName = (case fullName of
       None \<Rightarrow> (''UnknownSubscribeCallback'', ''Unknown'', ''UnknownFunc'')
     | Some name \<Rightarrow> (case runtimeCallbackExtractor [] name of
         None \<Rightarrow> (''UnknownSubscribeCallback'', ''Unknown'', ''UnknownFunc'')
       | Some (module, pkg, fn) \<Rightarrow> (fn, module @ ''/'' @ pkg, fn)))"

text \<open>A handler the instrumentation wrapped carries the reference of the instance.\<close>

definition instrumentCallback :: "ref \<Rightarrow> OTel \<Rightarrow> MessageHandler \<Rightarrow> MessageHandler" where
  "instrumentCallback self t h =
     (if \<not> match (tracePaths t) traceCallback then h else WrappedHandler self h)"

text \<open>A call of a wrapped handler, with the call \<open>inner\<close> of the handler it wraps.\<close>

definition instrumentedCall ::
  "'v otelenv \<Rightarrow> OTel \<Rightarrow> MessageHandler \<Rightarrow> (gocontext \<Rightarrow> 'v Message \<Rightarrow> 'v instrumented act) \<Rightarrow>
   gocontext \<Rightarrow> 'v Message \<Rightarrow> 'v instrumented act" where
  "instrumentedCall V t h inner ctx msg c =
     (let (spanName, pkgName, fnName) = callbackNames (funcName V h);
          base = [(ServiceNameKey, AString (service t)), (CodeNamespaceKey, AString pkgName),
              (CodeFunctionKey, AString fnName), (MQTTQoS, AInt (uint (QoS msg))),
              (MQTTRetained, ABool (RetainedFlag msg))] @ attributes t @
            (if ClientIDFromContext ctx \<noteq> [] then [(MQTTClientID, AString (ClientIDFromContext ctx))] else []);
          ectx = (case textMapCarrierFunc t of None \<Rightarrow> ctx | Some f \<Rightarrow> extracted V f ctx);
          metricAttrs = base @ [(MQTTTopic, AString (topicTransformer t ectx (Topic msg)))];
          c1 = incAttempt (rc t) traceCallback metricAttrs
                 (emit [SpanStart spanName SpanKindInternal (base @ [(MQTTTopic, AString (Topic msg))])] c);
          (r, c2) = inner ectx msg c1;
          finish = (\<lambda>c. recordLatency (rc t) traceCallback (elapsed V (trace c)) metricAttrs (emit [SpanEnd] c))
      in case r of
           Return _ \<Rightarrow> (r, finish (if spanFailed V (telemetry c2)
                              then incFailure (rc t) traceCallback metricAttrs c2 else c2))
         | Panic p \<Rightarrow> (r, finish c2)
         | Blocked \<Rightarrow> (r, c2))"

section \<open>Subscribing\<close>

definition subscribeSpanName :: string where "subscribeSpanName = ''otelcourier.Subscribe''"
definition subscribeMultipleSpanName :: string where "subscribeMultipleSpanName = ''otelcourier.SubscribeMultiple''"
definition subscribeErrMessage :: string where "subscribeErrMessage = ''subscribe error''"
definition subscribeMultipleErrMessage :: string where "subscribeMultipleErrMessage = ''subscribe multiple error''"

text \<open>The next handler is called without the options.\<close>

definition subscribeHandler ::
  "'v otelenv \<Rightarrow> ref \<Rightarrow> OTel \<Rightarrow> 'v instrumented Subscriber \<Rightarrow> ext \<Rightarrow> gocontext \<Rightarrow> string \<Rightarrow>
   MessageHandler \<Rightarrow> Option list \<Rightarrow> 'v instrumented act" where
  "subscribeHandler V self t next E ctx topic callback opts c =
     (let base = [(ServiceNameKey, AString (service t))] @ mapAttributes opts @ attributes t;
          cb = closureRef V (trace c);
          cctx = WithClientIDCallback ctx (Some cb);
          c1 = emit [SpanStart subscribeSpanName SpanKindClient (base @ [(MQTTTopic, AString topic)])] c;
          (r, c2) = subscribe next E cctx topic (instrumentCallback self t callback) [] c1;
          metricAttrs = (case lastID (callbackIDs cb (trace c) (trace c2)) of
              None \<Rightarrow> base @ [(MQTTTopic, AString (topicTransformer t ctx topic))]
            | Some i \<Rightarrow> base @ [(MQTTTopic, AString (topicTransformer t cctx topic)), (MQTTClientID, AString i)]);
          finish = (\<lambda>c. recordLatency (rc t) traceSubscriber (elapsed V (trace c)) metricAttrs (emit [SpanEnd] c))
      in case r of
           Return None \<Rightarrow> (r, finish (incAttempt (rc t) traceSubscriber metricAttrs c2))
         | Return (Some e) \<Rightarrow>
             (r, finish (incFailure (rc t) traceSubscriber metricAttrs
                   (emit [SpanRecordError e, SpanSetError subscribeErrMessage]
                     (incAttempt (rc t) traceSubscriber metricAttrs c2))))
         | Panic p \<Rightarrow> (r, finish c2)
         | Blocked \<Rightarrow> (r, c2))"

definition mapToArray :: "ext \<Rightarrow> (string, QOSLevel) gomap \<Rightarrow> string list" where
  "mapToArray E topicsWithQos =
     sort (map (\<lambda>(k, v). k @ '' | qos['' @ dec (unat v) @ '']'') (mapEntries (rangeOrder E) topicsWithQos))"

text \<open>
  The calls that record one measurement per topic; the closure replaces the attributes of
  all topics at once.
\<close>

definition incAttempts :: "recorder \<Rightarrow> tracePath \<Rightarrow> attrs list \<Rightarrow> 'v instrumented \<Rightarrow> 'v instrumented" where
  "incAttempts r path ass c = fold (incAttempt r path) ass c"

definition incFailures :: "recorder \<Rightarrow> tracePath \<Rightarrow> attrs list \<Rightarrow> 'v instrumented \<Rightarrow> 'v instrumented" where
  "incFailures r path ass c = fold (incFailure r path) ass c"

definition recordLatencies ::
  "recorder \<Rightarrow> tracePath \<Rightarrow> int \<Rightarrow> attrs list \<Rightarrow> 'v instrumented \<Rightarrow> 'v instrumented" where
  "recordLatencies r path d ass c = fold (recordLatency r path d) ass c"

definition subscribeMultipleHandler ::
  "'v otelenv \<Rightarrow> ref \<Rightarrow> OTel \<Rightarrow> 'v instrumented Subscriber \<Rightarrow> ext \<Rightarrow> gocontext \<Rightarrow>
   (string, QOSLevel) gomap \<Rightarrow> MessageHandler \<Rightarrow> 'v instrumented act" where
  "subscribeMultipleHandler V self t next E ctx topicsWithQos callback c =
     (let cb = closureRef V (trace c);
          cctx = WithClientIDCallback ctx (Some cb);
          c1 = emit [SpanStart subscribeMultipleSpanName SpanKindClient
                 ([(ServiceNameKey, AString (service t)),
                   (MQTTTopicWithQoS, AStringSlice (mapToArray E topicsWithQos))] @ attributes t)] c;
          (r, c2) = subscribeMultiple next E cctx topicsWithQos (instrumentCallback self t callback) c1;
          unnestMetricAttrs = (case lastID (callbackIDs cb (trace c) (trace c2)) of
              None \<Rightarrow> map (\<lambda>(topic, q). [(ServiceNameKey, AString (service t)),
                        (MQTTTopic, AString (topicTransformer t ctx topic)), (MQTTQoS, AInt (uint q))] @ attributes t)
                      (mapEntries (rangeOrder E) topicsWithQos)
            | Some i \<Rightarrow> map (\<lambda>topic. [(ServiceNameKey, AString (service t)),
                        (MQTTTopic, AString (topicTransformer t cctx topic)), (MQTTClientID, AString i)] @ attributes t)
                      (mapToArray E topicsWithQos));
          finish = (\<lambda>c. recordLatencies (rc t) traceSubscriber (elapsed V (trace c)) unnestMetricAttrs (emit [SpanEnd] c))
      in case r of
           Return None \<Rightarrow> (r, finish (incAttempts (rc t) traceSubscriber unnestMetricAttrs c2))
         | Return (Some e) \<Rightarrow>
             (r, finish (incFailures (rc t) traceSubscriber unnestMetricAttrs
                   (emit [SpanRecordError e, SpanSetError subscribeMultipleErrMessage]
                     (incAttempts (rc t) traceSubscriber unnestMetricAttrs c2))))
         | Panic p \<Rightarrow> (r, finish c2)
         | Blocked \<Rightarrow> (r, c2))"

definition SubscriberMiddleware ::
  "'v otelenv \<Rightarrow> ref \<Rightarrow> OTel \<Rightarrow> 'v instrumented Subscriber \<Rightarrow> 'v instrumented Subscriber" where
  "SubscriberMiddleware V self t next =
     \<lparr>subscribe = subscribeHandler V self t next, subscribeMultiple = subscribeMultipleHandler V self t next\<rparr>"

section \<open>Unsubscribing\<close>

definition unsubscribeSpanName :: string where "unsubscribeSpanName = ''otelcourier.Unsubscribe''"
definition unsubscribeErrMessage :: string where "unsubscribeErrMessage = ''unsubscribe error''"

definition UnsubscriberMiddleware ::
  "'v otelenv \<Rightarrow> OTel \<Rightarrow> 'v instrumented Unsubscriber \<Rightarrow> 'v instrumented Unsubscriber" where
  "UnsubscriberMiddleware V t next E ctx topics c =
     (let cb = closureRef V (trace c);
          cctx = WithClientIDCallback ctx (Some cb);
          c1 = emit [SpanStart unsubscribeSpanName SpanKindClient
                 ([(ServiceNameKey, AString (service t)), (MQTTTopic, AStringSlice topics)] @ attributes t)] c;
          (r, c2) = next E cctx topics c1;
          unnestMetricAttrs = (case lastID (callbackIDs cb (trace c) (trace c2)) of
              None \<Rightarrow> map (\<lambda>topic. [(ServiceNameKey, AString (service t)),
                        (MQTTTopic, AString (topicTransformer t ctx topic))] @ attributes t) topics
            | Some i \<Rightarrow> map (\<lambda>topic. [(ServiceNameKey, AString (service t)),
                        (MQTTTopic, AString (topicTransformer t cctx topic)), (MQTTClientID, AString i)] @ attributes t) topics);
          finish = (\<lambda>c. recordLatencies (rc t) traceUnsubscriber (elapsed V (trace c)) unnestMetricAttrs (emit [SpanEnd] c))
      in case r of
           Return None \<Rightarrow> (r, finish (incAttempts (rc t) traceUnsubscriber unnestMetricAttrs c2))
         | Return (Some e) \<Rightarrow>
             (r, finish (incFailures (rc t) traceUnsubscriber unnestMetricAttrs
                   (emit [SpanRecordError e, SpanSetError unsubscribeErrMessage]
                     (incAttempts (rc t) traceUnsubscriber unnestMetricAttrs c2))))
         | Panic p \<Rightarrow> (r, finish c2)
         | Blocked \<Rightarrow> (r, c2))"

section \<open>Stopping\<close>

definition OTel_Stop :: "'v otelenv \<Rightarrow> 'v instrumented \<Rightarrow> err \<times> 'v instrumented" where
  "OTel_Stop V c = (case infoHandlerRegistration c of
       None \<Rightarrow> (None, c)
     | Some r \<Rightarrow> (case unregister V r of
         Some e \<Rightarrow> (Some e, emit [Unregister r] c)
       | None \<Rightarrow> (None, (emit [Unregister r] c)\<lparr>infoHandlerRegistration := None\<rparr>)))"

definition StopMiddleware :: "'v otelenv \<Rightarrow> 'v instrumented Stopper \<Rightarrow> 'v instrumented Stopper" where
  "StopMiddleware V next E c = (case next E c of
       (Return err, c1) \<Rightarrow>
         (let (cleanupErr, c2) = OTel_Stop V c1
          in if cleanupErr \<noteq> None \<and> err = None then (Return cleanupErr, c2) else (Return err, c2))
     | r \<Rightarrow> r)"

section \<open>Applying the middlewares\<close>

text \<open>
  \<^verbatim>\<open>Seconds()\<close> of a duration and \<^verbatim>\<open>float64\<close> of an integer are kept as what they are computed from.
\<close>

datatype gaugeValue = Seconds int | Float64 int

definition Version :: string where "Version = ''0.7.17''"

definition configMetrics ::
  "OTel \<Rightarrow> ('v, 'x) client_scheme \<Rightarrow> (string \<times> string \<times> gaugeValue \<times> attrs) list" where
  "configMetrics t c =
     (let baseAttrs = [(''service.name'', AString (service t))] @ attributes t
      in [(''courier.client.connection_timeout'', ''s'', Seconds (Client_ConnectTimeout c), baseAttrs),
          (''courier.client.write_timeout'', ''s'', Seconds (Client_WriteTimeout c), baseAttrs),
          (''courier.client.keep_alive'', ''s'', Seconds (Client_KeepAlive c), baseAttrs),
          (''courier.client.ack_timeout'', ''s'', Seconds (Client_AckTimeout c), baseAttrs),
          (''courier.client.library_version'', [], Float64 1, baseAttrs @ [(''version'', AString Version)]),
          (''courier.client.pool_size'', [], Float64 (Client_PoolSize c), baseAttrs)])"

text \<open>The gauges that are observed afterwards; \<^verbatim>\<open>panic(err)\<close> is \<^const>\<open>Inl\<close>.\<close>

fun registerGauges ::
  "meterlib \<Rightarrow> (string \<times> string \<times> gaugeValue \<times> attrs) list \<Rightarrow>
   goerror + (string \<times> string \<times> gaugeValue \<times> attrs) list" where
  "registerGauges M [] = Inr []"
| "registerGauges M (cm # cms) =
     (case createInstrument M (fst cm) of
        Some e \<Rightarrow> Inl e
      | None \<Rightarrow> (case registerCallback M of
          Some e \<Rightarrow> Inl e
        | None \<Rightarrow> (case registerGauges M cms of Inl e \<Rightarrow> Inl e | Inr gs \<Rightarrow> Inr (cm # gs))))"

definition setupCourierMetrics ::
  "meterlib \<Rightarrow> OTel \<Rightarrow> ('v, 'x) client_scheme \<Rightarrow> goerror + (string \<times> string \<times> gaugeValue \<times> attrs) list" where
  "setupCourierMetrics M t c = registerGauges M (configMetrics t c)"

text \<open>
  The assertion of the type \<^verbatim>\<open>CourierConfig\<close> on the value that is instrumented: \<^term>\<open>None\<close> where it lacks
  the methods. \<^verbatim>\<open>courier.Client\<close> has them.
\<close>

definition initCourierConfig ::
  "meterlib \<Rightarrow> OTel \<Rightarrow> ('v, 'x) client_scheme option \<Rightarrow> goerror + (string \<times> string \<times> gaugeValue \<times> attrs) list" where
  "initCourierConfig M t cfg = (case cfg of None \<Rightarrow> Inr [] | Some c \<Rightarrow> setupCourierMetrics M t c)"

definition ApplyMiddlewares ::
  "'v otelenv \<Rightarrow> ref \<Rightarrow> meterlib \<Rightarrow> OTel \<Rightarrow> 'v instrumented \<Rightarrow> ('v, 'v instrumented) handlers \<Rightarrow>
   (goerror + (string \<times> string \<times> gaugeValue \<times> attrs) list) \<times> ('v, 'v instrumented) handlers" where
  "ApplyMiddlewares V self M t c H =
     (let H = (if match (tracePaths t) tracePublisher
               then UsePublisherMiddleware [PublisherMiddleware V t] H else H);
          H = (if match (tracePaths t) traceSubscriber
               then UseSubscriberMiddleware [SubscriberMiddleware V self t] H else H);
          H = (if match (tracePaths t) traceUnsubscriber
               then UseUnsubscriberMiddleware [UnsubscriberMiddleware V t] H else H);
          H = (if infoHandler t \<noteq> None then UseStopMiddleware (Some (StopMiddleware V)) H else H)
      in (initCourierConfig M t (Some c), H))"

section \<open>Observing the connections\<close>

definition boolInt64 :: "bool \<Rightarrow> int" where
  "boolInt64 connected = (if connected then 1 else 0)"

record inMemResponseWriter =
  memBody :: bytes
  memHeaders :: "(string, string) gomap"
  memStatus :: int

text \<open>
  The handler writes its response into memory; the response is decoded by the third-party JSON
  decoder. The result is the error of the callback and the observations made.
\<close>

definition infoHandler_callback ::
  "(bytes \<Rightarrow> goerror + MQTTClientInfo list) \<Rightarrow> (inMemResponseWriter \<Rightarrow> inMemResponseWriter) \<Rightarrow> err \<Rightarrow> attrs \<Rightarrow>
   err \<times> (int \<times> attrs) list" where
  "infoHandler_callback decode serve reqErr attrs =
     (case reqErr of
        Some e \<Rightarrow> (Some e, [])
      | None \<Rightarrow>
          (let resp = serve \<lparr>memBody = [], memHeaders = [], memStatus = 0\<rparr>
           in case decode (memBody resp) of
                Inl e \<Rightarrow> (Some e, [])
              | Inr clients \<Rightarrow> (None,
                  map (\<lambda>cl. (boolInt64 (Connected cl), attrs @ [(MQTTClientID, AString (infoClientID cl))])) clients)))"

end
