(* ===== verification/OTelProps.thy ===== *)
theory OTelProps
  imports OTel
begin

text \<open>
  What the instrumentation does to a client: the recorders of an instance are those of its
  trace paths, an instrumented publication makes the same requests and is counted with the
  identifier of the connection that served it, stopping unregisters the observer, the
  middlewares run in the order they were added; and where the instrumentation changes what
  the client does.
\<close>

section \<open>Recorders of an instance\<close>

definition recordersOf :: "string \<Rightarrow> float64 list \<Rightarrow> recorders" where
  "recordersOf flow bs = \<lparr>attempts = ''courier.'' @ flow @ ''.attempts'',
     failures = ''courier.'' @ flow @ ''.failures'', latency = (''courier.'' @ flow @ ''.latency'', bs)\<rparr>"

lemma distinct_metricFlows: "distinct_keys metricFlows"
  by (simp add: metricFlows_def tracePath_values)

lemma distinct_mapEntries:
  assumes "distinct_keys m" and "perm_list ord"
  shows "distinct_keys (mapEntries ord m)"
  using assms mset_mapEntries [OF assms] by (metis mset_eq_imp_distinct_iff mset_map)

lemma New_rc:
  assumes "New meterOf nano reg ord svc opts G = (Inr (t, r), G')" and "perm_list ord"
  shows "map_of (rc t) p = (case map_of metricFlows p of
       Some flow \<Rightarrow> if match (tracePaths t) p then Some (recordersOf flow (boundariesAt (defBucketBoundaries G') p)) else None
     | None \<Rightarrow> None)"
    and "service t = svc" and "tracePaths t = oTracePaths (fold (\<lambda>opt. opt) opts (defaultOptions G))"
    and "attributes t = oAttributes (fold (\<lambda>opt. opt) opts (defaultOptions G))"
    and "defBucketBoundaries G' = histogramBoundaries (fold (\<lambda>opt. opt) opts (defaultOptions G))"
proof -
  let ?o = "fold (\<lambda>opt. opt) opts (defaultOptions G)"
  let ?t = "\<lparr>service = svc, tracePaths = oTracePaths ?o, tracerProvider = oTracerProvider ?o,
     propagator = oPropagator ?o, textMapCarrierFunc = oTextMapCarrierExtractor ?o,
     topicTransformer = oTopicTransformer ?o, infoHandler = oInfoHandler ?o, rc = [], attributes = oAttributes ?o\<rparr>"
  let ?M = "meterOf (oMeterProvider ?o)" and ?fs = "mapEntries ord metricFlows"
  have G': "defBucketBoundaries G' = histogramBoundaries ?o"
    using assms(1) by (auto simp: New_def Let_def)
  have run: "recordersLoop ?M (defBucketBoundaries G') ?fs ?t = Inr t"
    using assms(1) unfolding G' by (auto simp: New_def Let_def initRecorders_def split: sum.splits if_splits)
  have fs: "distinct_keys ?fs" "map_of ?fs = map_of metricFlows"
    using distinct_metricFlows assms(2) by (simp_all add: map_of_mapEntries distinct_mapEntries)
  note f = recordersLoop_fields [OF run]
  show "map_of (rc t) p = (case map_of metricFlows p of
       Some flow \<Rightarrow> if match (tracePaths t) p then Some (recordersOf flow (boundariesAt (defBucketBoundaries G') p)) else None
     | None \<Rightarrow> None)"
    using recordersLoop_rc [OF run fs(1), of p] f by (simp add: fs(2) recordersOf_def split: option.split)
  show "service t = svc" "tracePaths t = oTracePaths ?o" "attributes t = oAttributes ?o"
    "defBucketBoundaries G' = histogramBoundaries ?o"
    using f G' by simp_all
qed

section \<open>An instrumented publication\<close>

lemma emit_fields [simp]:
  "trace (emit evs c) = trace c" "options (emit evs c) = options c" "states (emit evs c) = states c"
  "orderedClients (emit evs c) = orderedClients c" "mqttClients (emit evs c) = mqttClients c"
  "mqttClient (emit evs c) = mqttClient c" "rrCounter (emit evs c) = rrCounter c"
  "subscriptions (emit evs c) = subscriptions c" "telemetry (emit evs c) = telemetry c @ evs"
  "infoHandlerRegistration (emit evs c) = infoHandlerRegistration c" "nextAddr (emit evs c) = nextAddr c"
  by (simp_all add: emit_def)

lemma emit_emit [simp]: "emit ys (emit xs c) = emit (xs @ ys) c"
  by (simp add: emit_def)

lemma wfClient_emit [simp]: "wfClient (emit evs c) = wfClient c"
  by (simp add: wfClient_def emit_def)

lemma callbackIDs_own:
  "callbackIDs cb tr (tr @ ClientIDCallback cb i # [MPublish m tp q rt buf]) = [i]"
  "callbackIDs cb tr (tr @ ClientIDCallback cb i # [MSubscribe m tp q h]) = [i]"
  by (simp_all add: callbackIDs_def List.map_filter_simps)

lemma recording:
  assumes "map_of r p = Some rs"
  shows "incAttempt r p as c = emit [InstrumentAdd (attempts rs) as] c"
    "incFailure r p as c = emit [InstrumentAdd (failures rs) as] c"
    "recordLatency r p d as c = emit [InstrumentRecord (fst (latency rs)) d as] c"
  using assms by (simp_all add: incAttempt_def incFailure_def recordLatency_def)

lemma recording_keeps:
  "trace (incAttempt r p as c) = trace c" "subscriptions (incAttempt r p as c) = subscriptions c"
  "trace (incFailure r p as c) = trace c" "subscriptions (incFailure r p as c) = subscriptions c"
  "trace (recordLatency r p d as c) = trace c" "subscriptions (recordLatency r p d as c) = subscriptions c"
  by (simp_all add: incAttempt_def incFailure_def recordLatency_def split: option.split)

lemma ApplyMiddlewares_publisher:
  "match (tracePaths t) tracePublisher \<Longrightarrow>
     publisher (snd (ApplyMiddlewares V self M t c newHandlers)) = PublisherMiddleware V t publishHandler"
  by (simp add: ApplyMiddlewares_def UsePublisherMiddleware_def UseSubscriberMiddleware_def
      UseUnsubscriberMiddleware_def UseStopMiddleware_def newHandlers_def buildChain_def Let_def)

lemma ApplyMiddlewares_subscriber:
  "match (tracePaths t) traceSubscriber \<Longrightarrow>
     subscriber (snd (ApplyMiddlewares V self M t c newHandlers)) = SubscriberMiddleware V self t subscriberFuncs"
  by (simp add: ApplyMiddlewares_def UsePublisherMiddleware_def UseSubscriberMiddleware_def
      UseUnsubscriberMiddleware_def UseStopMiddleware_def newHandlers_def buildChain_def Let_def)

lemma ApplyMiddlewares_stopHandler:
  "infoHandler t \<noteq> None \<Longrightarrow>
     stopHandler (snd (ApplyMiddlewares V self M t c newHandlers)) = StopMiddleware V stopHandlerFunc"
  by (simp add: ApplyMiddlewares_def UseStopMiddleware_def Let_def)

section \<open>A concrete instance\<close>

definition refGlobals :: otelGlobals where
  "refGlobals = \<lparr>globalTracerProvider = 0, globalMeterProvider = 0, globalPropagator = 0,
     defBucketBoundaries = [(tracePublisher, [1, 2]), (traceSubscriber, [3]), (traceUnsubscriber, [3]), (traceCallback, [4])]\<rparr>"

definition refOtelMeter :: "ref \<Rightarrow> meterlib" where
  "refOtelMeter provider = \<lparr>createInstrument = (\<lambda>name. None), registerCallback = None\<rparr>"

definition refOtelEnv :: "string otelenv" where
  "refOtelEnv = \<lparr>closureRef = (\<lambda>tr. 100 + length tr), injected = (\<lambda>v. None), elapsed = (\<lambda>tr. 5),
     extracted = (\<lambda>f ctx. ctx), funcName = (\<lambda>h. None), spanFailed = (\<lambda>evs. False), unregister = (\<lambda>r. None)\<rparr>"

definition refNewOTel :: "(goerror + OTel \<times> ref option) \<times> otelGlobals" where
  "refNewOTel = New refOtelMeter 1 3 (\<lambda>ps. ps) ''svc'' [WithInfoHandlerFrom (Some 9)] refGlobals"

definition refOTel :: OTel where
  "refOTel = (case fst refNewOTel of Inr (t, r) \<Rightarrow> t | Inl _ \<Rightarrow>
     \<lparr>service = [], tracePaths = 0, tracerProvider = 0, propagator = 0, textMapCarrierFunc = None,
      topicTransformer = DefaultTopicAttributeTransformer, infoHandler = None, rc = [], attributes = []\<rparr>)"

definition instrument :: "'v client \<Rightarrow> ref option \<Rightarrow> 'v instrumented" where
  "instrument c r = client.extend c (instrumented.fields [] r)"

lemma instrument_fields [simp]:
  "trace (instrument c r) = trace c" "options (instrument c r) = options c" "states (instrument c r) = states c"
  "orderedClients (instrument c r) = orderedClients c" "mqttClients (instrument c r) = mqttClients c"
  "mqttClient (instrument c r) = mqttClient c" "rrCounter (instrument c r) = rrCounter c"
  "subscriptions (instrument c r) = subscriptions c" "telemetry (instrument c r) = []"
  "infoHandlerRegistration (instrument c r) = r" "nextAddr (instrument c r) = nextAddr c"
  by (simp_all add: instrument_def client.defs instrumented.defs)

lemma wfClient_instrument [simp]: "wfClient (instrument c r) = wfClient c"
  by (simp add: wfClient_def)

lemma refNewOTel_ok: "\<exists>t r G'. refNewOTel = (Inr (t, r), G') \<and> t = refOTel"
  by (simp add: refOTel_def refNewOTel_def New_def Let_def initRecorders_def initInfoHandler_def metricFlows_def
      mapEntries_def List.map_filter_simps tracePath_values refOtelMeter_def newRecorder_def WithInfoHandlerFrom_def
      defaultOptions_def match_def)

lemma refOTel_fields [simp]:
  "tracePaths refOTel = 15" "service refOTel = ''svc''" "attributes refOTel = []" "infoHandler refOTel = Some 9"
  "topicTransformer refOTel = DefaultTopicAttributeTransformer"
  by (simp_all add: refOTel_def refNewOTel_def New_def Let_def initRecorders_def initInfoHandler_def metricFlows_def
      mapEntries_def List.map_filter_simps tracePath_values refOtelMeter_def newRecorder_def WithInfoHandlerFrom_def
      defaultOptions_def match_def)

lemma match_refOTel [simp]: "match 15 tracePublisher" "match 15 traceSubscriber" "match 15 traceUnsubscriber"
  by (simp_all add: match_def tracePath_values)

section \<open>Properties\<close>

text \<open>
  C38: An instrumented publication on several connections makes the request of an
  uninstrumented one, on the connection that is next in the rotation, and returns its error;
  it is traced by one span, counted once as an attempt and, when it failed, once as a failure,
  and timed once, with the identifier of the connection that served it. The callback the
  application stored in the context is not called.
\<close>

theorem publish_instrumented:
  assumes "New meterOf nano reg ord svc topts G = (Inr (t, r), G')" and "perm_list ord"
    and "match (tracePaths t) tracePublisher"
    and "wfClient c" and "multiMode c" and "orderedClients c \<noteq> []" and "unat (rrCounter c) < 2 ^ 63"
    and "cctx = WithClientIDCallback ctx (Some (closureRef V (trace c)))"
    and "newEncoder (options c) cctx (case injected V message of Some m \<Rightarrow> m | None \<Rightarrow> message) [] = (None, buf)"
    and "m = isClient (states c (orderedClients c ! (unat (rrCounter c) mod length (orderedClients c))))"
    and "clientIDMapper E (Some m) \<noteq> []"
  shows "Publish (snd (ApplyMiddlewares V self M t c newHandlers)) E ctx topic message opts c =
     (let o1 = composeOptions opts;
          tr = trace c @ [ClientIDCallback (closureRef V (trace c)) (clientIDMapper E (Some m)),
                 MPublish m topic (qos o1) (retained o1) buf];
          err = handleToken (options c) cctx (respond E tr) ErrPublishTimeout;
          base = [(ServiceNameKey, AString svc)] @ mapAttributes opts @ attributes t;
          as = base @ [(MQTTTopic, AString (topicTransformer t cctx topic)),
                 (MQTTClientID, AString (clientIDMapper E (Some m)))]
      in (Return err, c\<lparr>rrCounter := rrCounter c + 1, trace := tr,
            telemetry := telemetry c @
              [SpanStart publishSpanName SpanKindProducer (base @ [(MQTTTopic, AString topic)])] @
              (case err of None \<Rightarrow> [] | Some e \<Rightarrow> [SpanRecordError e, SpanSetError publishErrMessage,
                 InstrumentAdd ''courier.publish.failures'' as]) @
              [InstrumentAdd ''courier.publish.attempts'' as, SpanEnd,
               InstrumentRecord ''courier.publish.latency'' (elapsed V tr) as]\<rparr>))"
proof -
  let ?c = "emit [SpanStart publishSpanName SpanKindProducer (([(ServiceNameKey, AString svc)] @
      mapAttributes opts @ attributes t) @ [(MQTTTopic, AString topic)])] c"
  let ?msg = "case injected V message of Some m \<Rightarrow> m | None \<Rightarrow> message"
  have rs: "map_of (rc t) tracePublisher =
      Some (recordersOf ''publish'' (boundariesAt (defBucketBoundaries G') tracePublisher))"
    using New_rc(1) [OF assms(1,2), of tracePublisher] assms(3) by (simp add: metricFlows_def)
  have svc: "service t = svc" by (rule New_rc(2) [OF assms(1,2)])
  have call: "publishHandler E cctx topic ?msg opts ?c =
      (let tr = trace c @ [ClientIDCallback (closureRef V (trace c)) (clientIDMapper E (Some m)),
          MPublish m topic (qos (composeOptions opts)) (retained (composeOptions opts)) buf]
       in (Return (handleToken (options c) cctx (respond E tr) ErrPublishTimeout),
           ?c\<lparr>rrCounter := rrCounter c + 1, trace := tr\<rparr>))"
    using publish_multi [of ?c cctx ?msg buf E topic opts] assms(4-7,9,10)
    by (simp add: publishEvents_def invokeClientIDCallback_def assms(8) WithClientIDCallback_def Let_def)
  show ?thesis
    using call assms(11)
    by (auto simp: Publish_def ApplyMiddlewares_publisher [OF assms(3)] PublisherMiddleware_def Let_def
        svc recording [OF rs] recordersOf_def callbackIDs_own lastID_def assms(8) emit_def split: option.split)
qed

theorem publish_instrumented_witness:
  "telemetry (snd (Publish (snd (ApplyMiddlewares refOtelEnv 50 (refOtelMeter 0) refOTel (instrument refPool None) newHandlers))
      refExt context_Background ''t'' ''x'' [QOSOption QOSOne] (instrument refPool None))) =
   [SpanStart publishSpanName SpanKindProducer [(ServiceNameKey, AString ''svc''), (MQTTQoS, AInt 1), (MQTTTopic, AString ''t'')],
    InstrumentAdd ''courier.publish.attempts'' [(ServiceNameKey, AString ''svc''), (MQTTQoS, AInt 1),
      (MQTTTopic, AString ''t''), (MQTTClientID, AString ''0'')],
    SpanEnd,
    InstrumentRecord ''courier.publish.latency'' 5 [(ServiceNameKey, AString ''svc''), (MQTTQoS, AInt 1),
      (MQTTTopic, AString ''t''), (MQTTClientID, AString ''0'')]]"
proof -
  obtain t r G' where new: "refNewOTel = (Inr (t, r), G')" and t: "t = refOTel" using refNewOTel_ok by blast
  let ?c = "instrument refPool None"
  have "Publish (snd (ApplyMiddlewares refOtelEnv 50 (refOtelMeter 0) refOTel ?c newHandlers))
      refExt context_Background ''t'' ''x'' [QOSOption QOSOne] ?c = (Return None, snd (Publish (snd (ApplyMiddlewares refOtelEnv 50 (refOtelMeter 0) refOTel ?c newHandlers))
      refExt context_Background ''t'' ''x'' [QOSOption QOSOne] ?c))"
    and "telemetry (snd (Publish (snd (ApplyMiddlewares refOtelEnv 50 (refOtelMeter 0) refOTel ?c newHandlers))
      refExt context_Background ''t'' ''x'' [QOSOption QOSOne] ?c)) =
     [SpanStart publishSpanName SpanKindProducer [(ServiceNameKey, AString ''svc''), (MQTTQoS, AInt 1), (MQTTTopic, AString ''t'')],
      InstrumentAdd ''courier.publish.attempts'' [(ServiceNameKey, AString ''svc''), (MQTTQoS, AInt 1),
        (MQTTTopic, AString ''t''), (MQTTClientID, AString ''0'')],
      SpanEnd,
      InstrumentRecord ''courier.publish.latency'' 5 [(ServiceNameKey, AString ''svc''), (MQTTQoS, AInt 1),
        (MQTTTopic, AString ''t''), (MQTTClientID, AString ''0'')]]"
    using publish_instrumented [OF new [unfolded t refNewOTel_def] perm_list_id, of ?c _ context_Background refOtelEnv
        "''x''" "[120]" 0 refExt 50 "refOtelMeter 0" "''t''" "[QOSOption QOSOne]", OF _ _ _ _ _ refl]
    by (simp_all add: refOtelEnv_def refEncoder_def of_char_def clientIDMapper_def refExt_def handleToken_def
        waitForToken_def WithClientIDCallback_def context_Background_def mapAttributes_def QOSOne_def
        DefaultTopicAttributeTransformer_def Let_def)
  then show ?thesis by simp
qed

text \<open>
  C39: An instrumented client forgets the options of a subscription: on one connection, the
  request it makes is always for quality of service 0, whatever level the caller asked for,
  while the registry and the reported subscriptions show the level the caller asked for.
\<close>

theorem subscribe_drops_options:
  assumes "match (tracePaths t) traceSubscriber" and "\<not> multiMode c" and "mqttClient c = Some m"
    and "wfClient c" and "perm_list (rangeOrder E)"
    and "Subscribe (snd (ApplyMiddlewares V self M t c newHandlers)) E ctx topic h opts c = (Return None, c')"
  shows "trace c' = trace c @ [ClientIDCallback (closureRef V (trace c)) (clientIDMapper E (Some m)),
           MSubscribe m topic 0 (instrumentCallback self t h)] \<and>
     map_of (readSubscriptionMeta E c') topic = Some (qos (composeOptions opts))"
proof -
  let ?h = "instrumentCallback self t h" and ?cb = "closureRef V (trace c)"
  let ?ctx = "WithClientIDCallback ctx (Some ?cb)"
  let ?tr = "trace c @ [ClientIDCallback ?cb (clientIDMapper E (Some m)), MSubscribe m topic 0 ?h]"
  have call: "subscribeFunc E ?ctx topic ?h [] (emit evs c) =
      (Return (handleToken (options c) ?ctx (respond E ?tr) ErrSubscribeTimeout), emit evs (c\<lparr>trace := ?tr\<rparr>))" for evs
    using assms(2,3)
    by (simp add: subscribeFunc_def execute_def Let_def callClientIDCallback_def invokeClientIDCallback_def
        WithClientIDCallback_def composeOptions_def emit_def)
  obtain d where d: "subscribeHandler V self t subscriberFuncs E ctx topic h opts c = (Return None, d)"
      and c': "c' = d\<lparr>subscriptions := AList.update topic \<lparr>smTopic = topic, smOptions = opts, smCallback = h\<rparr> (subscriptions d)\<rparr>"
    using assms(6)
    by (auto simp: Subscribe_def ApplyMiddlewares_subscriber [OF assms(1)] SubscriberMiddleware_def
        split: prod.splits outcome.splits option.splits)
  have "trace d = ?tr \<and> subscriptions d = subscriptions c"
    using d call
    by (auto simp: subscribeHandler_def subscriberFuncs_def Let_def recording_keeps split: option.splits)
  then show ?thesis
    using assms(4,5) c' by (simp add: map_of_readSubscriptionMeta wfClient_def distinct_update gm.lookup_update)
qed

theorem subscribe_drops_options_witness:
  "trace (snd (Subscribe (snd (ApplyMiddlewares refOtelEnv 50 (refOtelMeter 0) refOTel (instrument refSingle None) newHandlers))
      refExt context_Background ''t'' (AppHandler 3) [QOSOption QOSTwo] (instrument refSingle None))) =
   trace refSingle @ [ClientIDCallback (100 + length (trace refSingle)) ''0'', MSubscribe 0 ''t'' 0 (WrappedHandler 50 (AppHandler 3))]"
proof -
  let ?c = "instrument refSingle None"
  let ?H = "snd (ApplyMiddlewares refOtelEnv 50 (refOtelMeter 0) refOTel ?c newHandlers)"
  obtain c' where run: "Subscribe ?H refExt context_Background ''t'' (AppHandler 3) [QOSOption QOSTwo] ?c = (Return None, c')"
    by (simp add: Subscribe_def ApplyMiddlewares_subscriber SubscriberMiddleware_def subscribeHandler_def subscriberFuncs_def
        subscribeFunc_def execute_def callClientIDCallback_def invokeClientIDCallback_def WithClientIDCallback_def Let_def
        handleToken_def waitForToken_def context_Background_def refExt_def)
  have "match (tracePaths refOTel) traceSubscriber" by simp
  then have "trace c' = trace refSingle @ [ClientIDCallback (closureRef refOtelEnv (trace refSingle)) (clientIDMapper refExt (Some 0)),
      MSubscribe 0 ''t'' 0 (instrumentCallback 50 refOTel (AppHandler 3))]"
    using subscribe_drops_options [OF _ _ _ _ _ run, of 0] by simp
  then show ?thesis
    using run by (simp add: refOtelEnv_def clientIDMapper_def refExt_def instrumentCallback_def match_def tracePath_values)
qed

text \<open>
  Stopping an instrumented client disconnects every connection as an uninstrumented stop
  does and unregisters the observer of the connections once: the registration is gone
  afterwards, and a second stop unregisters nothing.
\<close>

theorem stop_unregisters:
  assumes "infoHandler t \<noteq> None" and "ext_ok E" and "wfClient c" and "multiMode c" and "orderedClients c \<noteq> []"
    and "infoHandlerRegistration c = Some r" and "unregister V r = None"
    and "H = snd (ApplyMiddlewares V self M t c0 newHandlers)"
  shows "\<exists>tr. mset tr = mset (map (\<lambda>a. MDisconnect (isClient (states c a)) (disconnectQuiesce (options c))) (orderedClients c)) \<and>
     Stop H E c = c\<lparr>mqttClient := None, mqttClients := [], orderedClients := [],
       stopInfoEmitter := map_option (\<lambda>_. True) (stopInfoEmitter c), trace := trace c @ tr,
       telemetry := telemetry c @ [Unregister r], infoHandlerRegistration := None\<rparr> \<and>
     telemetry (Stop H E (Stop H E c)) = telemetry (Stop H E c)"
proof -
  have H: "stopHandler H = StopMiddleware V stopHandlerFunc"
    unfolding assms(8) by (rule ApplyMiddlewares_stopHandler [OF assms(1)])
  obtain tr where tr: "mset tr = mset (map (\<lambda>a. MDisconnect (isClient (states c a)) (disconnectQuiesce (options c))) (orderedClients c))"
      and stop: "stop E c = (Return None, c\<lparr>mqttClient := None, mqttClients := [], orderedClients := [],
       stopInfoEmitter := map_option (\<lambda>_. True) (stopInfoEmitter c), trace := trace c @ tr\<rparr>)" (is "_ = (_, ?d)")
    by (rule stop_multi [OF assms(2-5)])
  have first: "Stop H E c = (emit [Unregister r] ?d)\<lparr>infoHandlerRegistration := None\<rparr>" (is "_ = ?e")
    using stop assms(6,7) by (simp add: Stop_def H StopMiddleware_def stopHandlerFunc_def OTel_Stop_def)
  have "stop E ?e = (Return (Some ErrClientNotInitialized), snd (stop E ?e)) \<and> telemetry (snd (stop E ?e)) = telemetry ?e \<and>
      infoHandlerRegistration (snd (stop E ?e)) = None"
    by (auto simp: stop_def execute_def Let_def split: option.split)
  then have "telemetry (Stop H E ?e) = telemetry ?e"
    by (cases "stop E ?e") (auto simp: Stop_def H StopMiddleware_def stopHandlerFunc_def OTel_Stop_def)
  then show ?thesis
    using tr unfolding first by (intro exI [of _ tr]) (simp add: emit_def)
qed

theorem stop_unregisters_witness:
  "infoHandlerRegistration (Stop (snd (ApplyMiddlewares refOtelEnv 50 (refOtelMeter 0) refOTel (instrument refPool (Some 3)) newHandlers))
      refExt (instrument refPool (Some 3))) = None"
proof -
  have "unregister refOtelEnv 3 = None" by (simp add: refOtelEnv_def)
  then show ?thesis
    using stop_unregisters [of refOTel refExt "instrument refPool (Some 3)" 3 refOtelEnv _ 50 "refOtelMeter 0" "instrument refPool (Some 3)", OF _ _ _ _ _ _ _ refl]
    by auto
qed

text \<open>
  C40: A call passes the middlewares in the order in which they were added, over any number of
  calls that add them, for publishing, subscribing and unsubscribing.
\<close>

theorem middleware_order:
  assumes "pss \<noteq> []" and "sss \<noteq> []" and "uss \<noteq> []"
  shows "publisher (fold UsePublisherMiddleware pss newHandlers) = foldr (\<lambda>m. m) (concat pss) publishHandler \<and>
     subscriber (fold UseSubscriberMiddleware sss newHandlers) = foldr (\<lambda>m. m) (concat sss) subscriberFuncs \<and>
     unsubscriber (fold UseUnsubscriberMiddleware uss newHandlers) = foldr (\<lambda>m. m) (concat uss) unsubscriberHandler"
  using pmw.handler_uses [OF assms(1), of newHandlers] smw.handler_uses [OF assms(2), of newHandlers]
    usmw.handler_uses [OF assms(3), of newHandlers] by (simp add: newHandlers_def)

theorem middleware_order_witness:
  "publisher (fold UsePublisherMiddleware [[PublisherMiddleware refOtelEnv refOTel], [\<lambda>p. p]] newHandlers) =
     PublisherMiddleware refOtelEnv refOTel publishHandler"
  using middleware_order [of "[[PublisherMiddleware refOtelEnv refOTel], [\<lambda>p. p]]"
      "[[SubscriberMiddleware refOtelEnv 50 refOTel]]" "[[UnsubscriberMiddleware refOtelEnv refOTel]]"]
  by simp

text \<open>
  The histogram boundaries given to one instance are those of every instance created
  later without boundaries of its own: the option writes to the map of defaults that all of
  them share.
\<close>

theorem boundaries_shared:
  assumes "New meterOf n1 r1 ord svc1 [BucketBoundaries_apply b] G = (x, G1)" and "bbPublisher b = Some bs"
    and "New meterOf n2 r2 ord svc2 [] G1 = (Inr (t, r), G2)" and "perm_list ord"
  shows "map_option latency (map_of (rc t) tracePublisher) = Some (''courier.publish.latency'', bs)"
proof -
  have "map_of (defBucketBoundaries G1) tracePublisher = Some bs"
    using assms(1,2)
    by (auto simp: New_def Let_def BucketBoundaries_apply_def setBoundaries_def tracePath_values update_conv' split: option.split)
  moreover have "defBucketBoundaries G2 = defBucketBoundaries G1" "tracePaths t = oTracePaths (defaultOptions G1)"
    using New_rc(3,5) [OF assms(3,4)] by (simp_all add: defaultOptions_def)
  ultimately show ?thesis
    using New_rc(1) [OF assms(3,4), of tracePublisher] by (simp add: metricFlows_def recordersOf_def boundariesAt_def)
qed

theorem boundaries_shared_witness:
  "\<exists>t r G2. New refOtelMeter 2 4 (\<lambda>ps. ps) ''b'' []
      (snd (New refOtelMeter 1 3 (\<lambda>ps. ps) ''a'' [BucketBoundaries_apply \<lparr>bbPublisher = Some [7], bbSubscriber = None,
         bbUnsubscriber = None, bbCallback = None\<rparr>] refGlobals)) = (Inr (t, r), G2) \<and>
     map_option latency (map_of (rc t) tracePublisher) = Some (''courier.publish.latency'', [7])"
proof -
  let ?b = "\<lparr>bbPublisher = Some [7], bbSubscriber = None, bbUnsubscriber = None, bbCallback = None\<rparr> :: BucketBoundaries"
  obtain x G1 where first: "New refOtelMeter 1 3 (\<lambda>ps. ps) ''a'' [BucketBoundaries_apply ?b] refGlobals = (x, G1)" by fastforce
  obtain t r G2 where second: "New refOtelMeter 2 4 (\<lambda>ps. ps) ''b'' [] G1 = (Inr (t, r), G2)"
    by (auto simp: New_def Let_def initRecorders_def initInfoHandler_def metricFlows_def mapEntries_def
        List.map_filter_simps tracePath_values refOtelMeter_def newRecorder_def defaultOptions_def match_def)
  show ?thesis
    using boundaries_shared [OF first _ second perm_list_id] second first by simp
qed

section \<open>Further facts\<close>

text \<open>A disabled path has no recorder and no middleware; the other paths are as before.\<close>

lemma publisher_disabled:
  assumes "New meterOf n r0 ord svc (opts @ [DisablePublisherTracing]) G = (Inr (t, r), G')" and "perm_list ord"
  shows "publisher (snd (ApplyMiddlewares V self M t c H)) = publisher H \<and> map_of (rc t) tracePublisher = None \<and>
     match (tracePaths t) traceSubscriber = match (oTracePaths (fold (\<lambda>opt. opt) opts (defaultOptions G))) traceSubscriber"
proof -
  have paths: "tracePaths t = oTracePaths (fold (\<lambda>opt. opt) opts (defaultOptions G)) AND NOT tracePublisher"
    using New_rc(3) [OF assms] by (simp add: DisablePublisherTracing_def disableTracePathOpt_def)
  then have off: "\<not> match (tracePaths t) tracePublisher" by simp
  have "tracePublisher AND traceSubscriber = 0" by (simp add: tracePath_values)
  then show ?thesis
    using New_rc(1) [OF assms, of tracePublisher] off paths
    by (auto simp: ApplyMiddlewares_def UseSubscriberMiddleware_def UseUnsubscriberMiddleware_def UseStopMiddleware_def
        metricFlows_def Let_def match_cleared_other)
qed

text \<open>
  Subscribing to several topics on one connection: the topic attribute of the measurements is
  the topic together with its level, and the attribute of the level is missing.
\<close>

lemma multiple_topic_attribute:
  "filter (\<lambda>ev. case ev of InstrumentAdd _ _ \<Rightarrow> True | _ \<Rightarrow> False)
     (telemetry (snd (subscribeMultipleHandler refOtelEnv 50 refOTel subscriberFuncs refExt context_Background
        [(''a'', 1)] (AppHandler 3) (instrument refSingle None)))) =
   [InstrumentAdd ''courier.subscribe.attempts'' [(ServiceNameKey, AString ''svc''),
      (MQTTTopic, AString ''a | qos[1]''), (MQTTClientID, AString ''0'')]]"
  by code_simp

end
