(* ===== verification/Logging.thy ===== *)
theory Logging
  imports Client
begin

text \<open>
  The logger over \<^verbatim>\<open>log/slog\<close> (\<^verbatim>\<open>slog/log.go\<close>): the records it passes to the standard library's
  logger. An attribute value of type \<^verbatim>\<open>any\<close> is of the type variable \<open>'v\<close>.
\<close>

datatype slogLevel = LevelInfo | LevelError

text \<open>A call of \<^verbatim>\<open>LogAttrs\<close>.\<close>

datatype 'v slogRecord = LogAttrs slogLevel string "(string \<times> 'v) list"

definition mapAttrs :: "ext \<Rightarrow> (string, 'v) gomap \<Rightarrow> (string \<times> 'v) list" where
  "mapAttrs E attrs = fold (\<lambda>(k, v) logAttrs. logAttrs @ [(k, v)]) (mapEntries (rangeOrder E) attrs) []"

definition slogWrapper_Info :: "ext \<Rightarrow> string \<Rightarrow> (string, 'v) gomap \<Rightarrow> 'v slogRecord" where
  "slogWrapper_Info E msg attrs = LogAttrs LevelInfo msg (mapAttrs E attrs)"

text \<open>The default list format of \<^verbatim>\<open>multierror\<close> is the argument \<open>lf\<close> of \<^const>\<open>errorText\<close>.\<close>

definition slogWrapper_Error ::
  "ext \<Rightarrow> (string list \<Rightarrow> string) \<Rightarrow> goerror \<Rightarrow> (string, 'v) gomap \<Rightarrow> 'v slogRecord" where
  "slogWrapper_Error E lf e attrs = LogAttrs LevelError (errorText lf e) (mapAttrs E attrs)"

text \<open>Every attribute is logged once, whatever order the map is visited in.\<close>

lemma mset_mapAttrs:
  assumes "ext_ok E" and "distinct_keys attrs"
  shows "mset (mapAttrs E attrs) = mset attrs"
proof -
  have "fold (\<lambda>(k, v) acc. acc @ [(k, v)]) es acc = acc @ es" for es acc :: "(string \<times> 'a) list"
    by (induction es arbitrary: acc) auto
  then show ?thesis using assms by (simp add: mapAttrs_def mset_mapEntries)
qed

end
