(* ===== verification/Spec2Isabelle.thy ===== *)
theory Spec2Isabelle
  imports Resume Contract Delivery Telemetry Starter ClientLocks Counter ConsulProps ConsulStop ConsulClient
    OTelProps Logging
begin

text \<open>
  A verification of the MQTT client library \<^verbatim>\<open>courier-go\<close>.

  \<^bold>\<open>The program.\<close> A \<^verbatim>\<open>Client\<close> (\<^verbatim>\<open>client.go\<close>) wraps one or several third-party MQTT clients. With an
  address it has one connection, or a pool of them (\<^verbatim>\<open>client_pool.go\<close>); with a \<^verbatim>\<open>Resolver\<close> it follows
  a changing list of broker addresses (\<^verbatim>\<open>client_resolver.go\<close>), on one connection or on one per
  address. Every operation goes through \<^verbatim>\<open>execute\<close> (\<^verbatim>\<open>exec.go\<close>), which picks the connections: all of
  them, one at random, the next in a rotation, or all with their own state. Publish, subscribe,
  unsubscribe and stop are handlers at the end of middleware chains. Around the client stand the
  info handler and emitter, the start strategy, the Consul resolver that feeds address updates
  (\<^verbatim>\<open>consul/\<close>), the OpenTelemetry middlewares (\<^verbatim>\<open>otelcourier/\<close>) and a logger (\<^verbatim>\<open>slog/\<close>).

  \<^bold>\<open>How code becomes definitions.\<close> A Go structure is a record, an interface of known
  implementations a datatype; an \<^verbatim>\<open>error\<close> is an option of \<^typ>\<open>goerror\<close>; a call that may panic returns
  an \<^typ>\<open>outcome\<close>. Stateful code is a function on the state, \<^typ>\<open>'s act\<close>. The state of a client is
  the record \<^typ>\<open>'v client\<close>, with the \<^verbatim>\<open>internalState\<close> objects in an explicit store, because the map
  \<^verbatim>\<open>mqttClients\<close> and the slice \<^verbatim>\<open>orderedClients\<close> share them. A Go map is an association list with
  distinct keys whose iteration order is an argument; counters and indexes keep their width of 64
  bits; a \<^verbatim>\<open>time.Duration\<close> is an integer of nanoseconds. Third-party code is the environment
  \<^typ>\<open>ext\<close>: every call on an MQTT client is an event of the trace, and the answer may depend on the
  whole trace. What the code relies on is the hypothesis \<^const>\<open>ext_ok\<close>: the documented behaviour of
  \<^verbatim>\<open>go-multierror\<close> and of the generic collections, and that every call order is a permutation. The
  theory \<^verbatim>\<open>Reference\<close> has a concrete environment and concrete clients in which it holds; the witnesses
  use them.

  \<^bold>\<open>The theories.\<close>
  \<^item> \<^verbatim>\<open>Prelude\<close>: decimal rendering, Go maps, calls in an order, 64-bit arithmetic, and the locales
    \<^verbatim>\<open>go_map\<close> (the laws of a map), \<^verbatim>\<open>step_system\<close> (a step relation with an invariant), \<^verbatim>\<open>shrinking\<close> and
    \<^verbatim>\<open>winding_down\<close> (steps that use something up, and come to rest).
  \<^item> \<^verbatim>\<open>GoErrors\<close> (\<^verbatim>\<open>errors.go\<close>, \<^verbatim>\<open>accumulateErrors\<close>): error values and the aggregation of a fan-out.
  \<^item> \<^verbatim>\<open>Messages\<close> (\<^verbatim>\<open>context.go\<close>, \<^verbatim>\<open>options.go\<close>, \<^verbatim>\<open>encoder.go\<close>, \<^verbatim>\<open>decoder.go\<close>, \<^verbatim>\<open>message.go\<close>).
  \<^item> \<^verbatim>\<open>Options\<close> (\<^verbatim>\<open>client_options.go\<close>, \<^verbatim>\<open>log.go\<close>, \<^verbatim>\<open>client_credentials.go\<close>): every option and the checks of
    \<^verbatim>\<open>NewClient\<close>.
  \<^item> \<^verbatim>\<open>Client\<close> (\<^verbatim>\<open>exec.go\<close> and the structure): dispatch, tokens.
  \<^item> \<^verbatim>\<open>PubSub\<close> (\<^verbatim>\<open>client_publish.go\<close>, \<^verbatim>\<open>client_subscribe.go\<close>, \<^verbatim>\<open>client_unsubscribe.go\<close>): handlers, the
    registry, and the locale \<^verbatim>\<open>middleware_chain\<close>, interpreted on the three chains.
  \<^item> \<^verbatim>\<open>Connect\<close> (\<^verbatim>\<open>client.go\<close>, \<^verbatim>\<open>client_pool.go\<close>, \<^verbatim>\<open>client_resolver.go\<close>, \<^verbatim>\<open>client_stop.go\<close>): construction,
    connecting, stopping, address updates, connection events.
  \<^item> \<^verbatim>\<open>Fanout\<close>, \<^verbatim>\<open>Invariant\<close>, \<^verbatim>\<open>Reach\<close>: what a fan-out over all connections does, the invariant
    \<^const>\<open>wfClient\<close> that every operation keeps, and the step relation of a client's life.
  \<^item> \<^verbatim>\<open>Publishing\<close>: rotation over the connections, its fairness, the end of its counter.
  \<^item> \<^verbatim>\<open>Subscribing\<close>: a shared subscription reaches every connection and is made once on each,
    unsubscribing reverts it, and a lost connection makes it repeatable.
  \<^item> \<^verbatim>\<open>Multiple\<close>: subscribing to several topics at once.
  \<^item> \<^verbatim>\<open>Delivery\<close>: a message from the published value to the value a subscriber decodes; what chains of
    encoders and decoders do.
  \<^item> \<^verbatim>\<open>PoolSpec\<close>: the abstract pool a client with several connections promises to be (members with a
    turn, a registry), as a step relation with one rule per call: publish, subscribe to one and to
    several topics, unsubscribe, a lost connection, an address update, stop; \<^verbatim>\<open>Simulation\<close>: that each
    call of the client is a step of the pool; \<^verbatim>\<open>Contract\<close>: that every sequence of calls is a run of it.
  \<^item> \<^verbatim>\<open>Lifecycle\<close>: the invariant in every reachable state; construction, start, stop, \<^verbatim>\<open>IsConnected\<close>.
    The locale \<^verbatim>\<open>emitting_call\<close> is the interface of a call on all connections.
  \<^item> \<^verbatim>\<open>Updates\<close>, \<^verbatim>\<open>Resume\<close>: an address update replaces the connections and renews the subscriptions.
  \<^item> \<^verbatim>\<open>Locks\<close>: \<^verbatim>\<open>sync.RWMutex\<close> and \<^verbatim>\<open>sync.Mutex\<close>, nested sections, fork and join, and the locales \<^verbatim>\<open>lock_rank\<close>
    and \<^verbatim>\<open>lock_order\<close>: operations that take locks in increasing order all come to an end;
    \<^verbatim>\<open>ClientLocks\<close>: the locks that every function of the client takes, that all operations but the
    telemetry keep the order, and the deadlock of the telemetry with a writer.
  \<^item> \<^verbatim>\<open>Counter\<close> (\<^verbatim>\<open>atomicCounter\<close> of \<^verbatim>\<open>exec.go\<close>): concurrent calls of \<^verbatim>\<open>next\<close>, step by step.
  \<^item> \<^verbatim>\<open>Telemetry\<close> (\<^verbatim>\<open>client_telemetry.go\<close>, \<^verbatim>\<open>metrics.go\<close>, \<^verbatim>\<open>http.go\<close>): what a client reports.
  \<^item> \<^verbatim>\<open>Starter\<close> (\<^verbatim>\<open>exp_starter.go\<close>, \<^verbatim>\<open>utils.go\<close>, \<^verbatim>\<open>Run\<close>): the retry intervals, waiting for a connection.
  \<^item> \<^verbatim>\<open>ConsulResolver\<close>, \<^verbatim>\<open>ConsulRun\<close>, \<^verbatim>\<open>ConsulProps\<close> (\<^verbatim>\<open>consul/\<close>): the locked sections of the resolver, the
    step relation of its goroutines and timers, and what all its runs satisfy.
  \<^item> \<^verbatim>\<open>ConsulStop\<close>: after \<^verbatim>\<open>Stop\<close> every run of the resolver is finite, and it can always get to its end;
    \<^verbatim>\<open>ConsulClient\<close>: the resolver together with the client that watches its update channel.
  \<^item> \<^verbatim>\<open>Attributes\<close>, \<^verbatim>\<open>OTelOptions\<close>, \<^verbatim>\<open>OTel\<close>, \<^verbatim>\<open>OTelProps\<close> (\<^verbatim>\<open>otelcourier/\<close>): options, recorders, middlewares
    over a client extended by what was sent to the tracer and the meter.
  \<^item> \<^verbatim>\<open>Logging\<close> (\<^verbatim>\<open>slog/log.go\<close>).

  \<^bold>\<open>Bounds.\<close> The loop of \<^verbatim>\<open>newClient\<close>, which tries addresses until one connects, may run forever; it has
  the fuel \<^const>\<open>retryFuel\<close> and the outcome \<^const>\<open>Blocked\<close> when it is cut off. The property
  \<^verbatim>\<open>single_connection_found\<close> shows that it returns for every fuel beyond the first attempt that
  succeeds. The loops of the start strategy, of \<^verbatim>\<open>WaitForConnection\<close> and of the emitter are functions
  of the sequence of events their \<^verbatim>\<open>select\<close> statements take. All other functions are total.

  \<^bold>\<open>Concurrency.\<close> In the functional model of the client a fan-out makes its calls in any order, but one
  at a time: each call is atomic, as its state is guarded by a lock. Goroutines that a client
  starts are recorded and run later as steps of their own. That these locks are taken in an order
  that never blocks for good, and where it is not kept, is shown on a model of its own, in which
  the operations are reduced to the locks they take and calls of the MQTT library come back. The
  only shared variable outside the locks is the counter of the rotation, which has its own steps.
  The Consul resolver is modelled at the grain of its locked sections and channel operations, so
  that its races can be stated. The weights in \<^verbatim>\<open>Locks\<close> and \<^verbatim>\<open>ConsulStop\<close> bound the length of runs;
  they are computed from the programs and the positions of the goroutines.

  \<^bold>\<open>Not modelled.\<close> Log lines; the interleaving of two calls of the client inside their locked sections;
  callbacks of the application that call the client again while it holds a lock; the contents of the third-party libraries (the MQTT client, \<^verbatim>\<open>go-multierror\<close>, the
  generic collections, JSON, the Consul API, the OpenTelemetry SDK, \<^verbatim>\<open>log/slog\<close>), which are
  arguments; type aliases and interface declarations, which have no behaviour.
\<close>

end
